theory Spec2Isabelle
  imports Complex_Main "HOL-Library.AList"
begin

section \<open>Values that travel between the host and the facades\<close>

text \<open>
  The facades are TypeScript; at run time every property value, every raw snapshot and
  every payload returned by \<^verbatim>\<open>getProp\<close> is a plain JavaScript value decoded from
  the wire. Objects keep their keys in insertion order, so an object is an association
  list (with distinct keys).
\<close>

datatype json =
    JUndefined
  | JNull
  | JBool bool
  | JNum real
  | JStr string
  | JArr "json list"
  | JObj "(string \<times> json) list"

type_synonym js_record = "(string \<times> json) list"

text \<open>
  What a promise can be rejected with, or a synchronous call can throw: the error kinds
  of the core (section 7 of the specification), the \<^verbatim>\<open>TypeError\<close> of the JavaScript
  run time, and any other thrown value.
\<close>

datatype error =
    Timeout
  | TransportError
  | ProtocolError string
  | DecodeError
  | ShuttingDown
  | JsTypeError
  | OtherError string

text \<open>
  Reading a property \<^verbatim>\<open>v.k\<close>: a \<^verbatim>\<open>TypeError\<close> on \<^verbatim>\<open>null\<close> and \<^verbatim>\<open>undefined\<close>, the
  stored value on an object that has the key, \<^verbatim>\<open>undefined\<close> otherwise. The facades
  read only the keys of the \<^verbatim>\<open>Raw...\<close> interfaces, none of which a boolean, number,
  string or array defines.
\<close>

fun js_get :: "json \<Rightarrow> string \<Rightarrow> error + json" where
  "js_get JUndefined k = Inl JsTypeError"
| "js_get JNull k = Inl JsTypeError"
| "js_get (JObj fs) k = Inr (case map_of fs k of None \<Rightarrow> JUndefined | Some v \<Rightarrow> v)"
| "js_get (JBool b) k = Inr JUndefined"
| "js_get (JNum n) k = Inr JUndefined"
| "js_get (JStr s) k = Inr JUndefined"
| "js_get (JArr xs) k = Inr JUndefined"

text \<open>
  An object literal \<^verbatim>\<open>{ k1: r.k1, k2: r.k2, ... }\<close>: the properties are read from left to
  right and the first read that throws aborts the literal.
\<close>

fun read_props :: "json \<Rightarrow> string list \<Rightarrow> error + js_record" where
  "read_props r [] = Inr []"
| "read_props r (k # ks) =
     (case js_get r k of
        Inl e \<Rightarrow> Inl e
      | Inr v \<Rightarrow> (case read_props r ks of Inl e \<Rightarrow> Inl e | Inr fs \<Rightarrow> Inr ((k, v) # fs)))"

text \<open>
  Defining the properties \<open>fs\<close> on an object \<open>obj\<close> one after the other, as the spread
  literal \<^verbatim>\<open>{ ...obj, k: v, ... }\<close> does: an existing key keeps its position and takes the
  new value, a new key goes to the end.
\<close>

fun define_props :: "js_record \<Rightarrow> js_record \<Rightarrow> js_record" where
  "define_props obj [] = obj"
| "define_props obj ((k, v) # fs) = define_props (AList.update k v obj) fs"

text \<open>The text a template literal inserts for an integer: its decimal numeral.\<close>

definition digit_char :: "nat \<Rightarrow> char" where
  "digit_char d = ''0123456789'' ! d"

fun show_nat :: "nat \<Rightarrow> string" where
  "show_nat n = (if n < 10 then [digit_char n] else show_nat (n div 10) @ [digit_char (n mod 10)])"

definition show_int :: "int \<Rightarrow> string" where
  "show_int i = (if i < 0 then CHR ''-'' # show_nat (nat (- i)) else show_nat (nat i))"


section \<open>The core as the facades see it\<close>

text \<open>
  The facades hold a reference to an \<^verbatim>\<open>Ableton\<close> instance and use four of its
  methods. The class lives in another module (\<^verbatim>\<open>../index\<close>), so a facade method is
  modelled as a computation that performs calls on the referenced instance and continues
  with whatever the instance answers. \<open>'a\<close> is the type of references to the instance,
  \<open>'cb\<close> the type of listener functions (compared by identity).
\<close>

datatype ('a, 'cb) core_call =
    GetProp 'a string "string option" string
  | SetProp 'a string "string option" string json
  | AddListener 'a string 'cb
  | RemoveListener 'a string 'cb

text \<open>
  The answer to a call: the value the returned promise resolves to (or, for the
  synchronous listener calls, the value returned), or the error it is rejected with
  (respectively the value thrown).
\<close>

datatype reply = Resolved json | Rejected error

datatype ('a, 'cb, 'r) prog =
    Return 'r
  | Throw error
  | Invoke "('a, 'cb) core_call" "reply \<Rightarrow> ('a, 'cb, 'r) prog"

text \<open>
  Running a computation against a core. The core is any function from a call and the
  state of the world (the core's own state, the host, the transport, every other pending
  operation) to an answer and the next state. The result is the outcome of the method
  (\<open>Inl\<close>: rejected or thrown), the calls it made on the core, in order, and the final
  state of the world.
\<close>

primrec run ::
  "(('a, 'cb) core_call \<Rightarrow> 'w \<Rightarrow> reply \<times> 'w) \<Rightarrow> ('a, 'cb, 'r) prog \<Rightarrow> 'w
     \<Rightarrow> (error + 'r) \<times> ('a, 'cb) core_call list \<times> 'w" where
  "run h (Return r) w = (Inr r, [], w)"
| "run h (Throw e) w = (Inl e, [], w)"
| "run h (Invoke c k) w =
     (case h c w of (rp, w') \<Rightarrow>
        (case run h (k rp) w' of (out, tr, w'') \<Rightarrow> (out, c # tr, w'')))"

text \<open>\<^verbatim>\<open>await call\<close>: a rejection is thrown at the point of the \<^verbatim>\<open>await\<close>.\<close>

definition await :: "('a, 'cb) core_call \<Rightarrow> (json \<Rightarrow> ('a, 'cb, 'r) prog) \<Rightarrow> ('a, 'cb, 'r) prog" where
  "await c k = Invoke c (\<lambda>rp. case rp of Rejected e \<Rightarrow> Throw e | Resolved v \<Rightarrow> k v)"

text \<open>A synchronous call whose result is dropped (a statement \<^verbatim>\<open>call;\<close>).\<close>

definition perform :: "('a, 'cb) core_call \<Rightarrow> ('a, 'cb, unit) prog" where
  "perform c = Invoke c (\<lambda>rp. case rp of Rejected e \<Rightarrow> Throw e | Resolved v \<Rightarrow> Return ())"

primrec and_then :: "('a, 'cb, 'r) prog \<Rightarrow> ('r \<Rightarrow> ('a, 'cb, 's) prog) \<Rightarrow> ('a, 'cb, 's) prog" where
  "and_then (Return r) f = f r"
| "and_then (Throw e) f = Throw e"
| "and_then (Invoke c k) f = Invoke c (\<lambda>rp. and_then (k rp) f)"

text \<open>\<^verbatim>\<open>try { body } catch (error) { handler }\<close>\<close>

primrec try_catch :: "('a, 'cb, 'r) prog \<Rightarrow> (error \<Rightarrow> ('a, 'cb, 'r) prog) \<Rightarrow> ('a, 'cb, 'r) prog" where
  "try_catch (Return r) handler = Return r"
| "try_catch (Throw e) handler = handler e"
| "try_catch (Invoke c k) handler = Invoke c (\<lambda>rp. try_catch (k rp) handler)"

text \<open>Lifting a pure step that may throw.\<close>

definition lift :: "error + 'r \<Rightarrow> ('a, 'cb, 'r) prog" where
  "lift x = (case x of Inl e \<Rightarrow> Throw e | Inr r \<Rightarrow> Return r)"

text \<open>
  \<^verbatim>\<open>new Device(ableton, data)\<close> and \<^verbatim>\<open>new DeviceParameter(ableton, data)\<close>: the two
  classes are imported from other modules (\<^verbatim>\<open>./device\<close>, \<^verbatim>\<open>./device-parameter\<close>), so
  their constructors are parameters \<open>mk\<close> of the methods that use them; a constructor
  may throw.
\<close>

fun construct_all :: "('a \<Rightarrow> json \<Rightarrow> error + 'd) \<Rightarrow> 'a \<Rightarrow> json list \<Rightarrow> error + 'd list" where
  "construct_all mk a [] = Inr []"
| "construct_all mk a (x # xs) =
     (case mk a x of
        Inl e \<Rightarrow> Inl e
      | Inr d \<Rightarrow> (case construct_all mk a xs of Inl e \<Rightarrow> Inl e | Inr ds \<Rightarrow> Inr (d # ds)))"

text \<open>
  \<^verbatim>\<open>data.map(x => new D(ableton, x))\<close>: only an array has a callable \<^verbatim>\<open>map\<close>; on any
  other decoded value the call is a \<^verbatim>\<open>TypeError\<close>.
\<close>

definition map_new :: "('a \<Rightarrow> json \<Rightarrow> error + 'd) \<Rightarrow> 'a \<Rightarrow> json \<Rightarrow> error + 'd list" where
  "map_new mk a data = (case data of JArr xs \<Rightarrow> construct_all mk a xs | _ \<Rightarrow> Inl JsTypeError)"


section \<open>The facades\<close>

text \<open>
  \<^verbatim>\<open>Chain\<close>, \<^verbatim>\<open>DrumChain\<close> (which extends \<^verbatim>\<open>Chain\<close> and adds no field) and
  \<^verbatim>\<open>ChainMixerDevice\<close> have the same three protected fields.
\<close>

record 'a facade =
  ableton :: 'a
  raw :: json
  path :: string

type_synonym 'a Chain = "'a facade"
type_synonym 'a DrumChain = "'a facade"
type_synonym 'a ChainMixerDevice = "'a facade"

text \<open>A parameter with the default \<^verbatim>\<open>path: string = ""\<close>; \<open>None\<close> is an omitted argument.\<close>

definition default_path :: "string option \<Rightarrow> string" where
  "default_path p = (case p of None \<Rightarrow> [] | Some s \<Rightarrow> s)"

subsection \<open>ChainMixerDevice\<close>

definition ChainMixerDevice_new ::
  "'a \<Rightarrow> json \<Rightarrow> string option \<Rightarrow> ('a, 'cb, 'a ChainMixerDevice) prog" where
  "ChainMixerDevice_new a r p = Return \<lparr>ableton = a, raw = r, path = default_path p\<rparr>"

definition ChainMixerDevice_id :: "'a ChainMixerDevice \<Rightarrow> ('a, 'cb, json) prog" where
  "ChainMixerDevice_id this = lift (js_get (raw this) ''id'')"

definition getCanonicalParent :: "'a ChainMixerDevice \<Rightarrow> ('a, 'cb, json) prog" where
  "getCanonicalParent this =
     await (GetProp (ableton this) (path this) None ''canonical_parent'') Return"

definition getChainActivator ::
  "('a \<Rightarrow> json \<Rightarrow> error + 'p) \<Rightarrow> 'a ChainMixerDevice \<Rightarrow> ('a, 'cb, 'p) prog" where
  "getChainActivator mk this =
     await (GetProp (ableton this) (path this) None ''chain_activator'')
       (\<lambda>activatorData. lift (mk (ableton this) activatorData))"

definition getPanning ::
  "('a \<Rightarrow> json \<Rightarrow> error + 'p) \<Rightarrow> 'a ChainMixerDevice \<Rightarrow> ('a, 'cb, 'p) prog" where
  "getPanning mk this =
     await (GetProp (ableton this) (path this) None ''panning'')
       (\<lambda>panningData. lift (mk (ableton this) panningData))"

definition getSends ::
  "('a \<Rightarrow> json \<Rightarrow> error + 'p) \<Rightarrow> 'a ChainMixerDevice \<Rightarrow> ('a, 'cb, 'p list) prog" where
  "getSends mk this =
     await (GetProp (ableton this) (path this) None ''sends'')
       (\<lambda>sendsData. lift (map_new mk (ableton this) sendsData))"

definition getVolume ::
  "('a \<Rightarrow> json \<Rightarrow> error + 'p) \<Rightarrow> 'a ChainMixerDevice \<Rightarrow> ('a, 'cb, 'p) prog" where
  "getVolume mk this =
     await (GetProp (ableton this) (path this) None ''volume'')
       (\<lambda>volumeData. lift (mk (ableton this) volumeData))"

definition getSend ::
  "('a \<Rightarrow> json \<Rightarrow> error + 'p) \<Rightarrow> 'a ChainMixerDevice \<Rightarrow> int \<Rightarrow> ('a, 'cb, 'p option) prog" where
  "getSend mk this index =
     try_catch
       (await (GetProp (ableton this) (path this) None (''sends '' @ show_int index))
          (\<lambda>sendData. lift (map_sum id Some (mk (ableton this) sendData))))
       (\<lambda>error. Return None)"

definition addCanonicalParentListener :: "'a ChainMixerDevice \<Rightarrow> 'cb \<Rightarrow> ('a, 'cb, unit) prog" where
  "addCanonicalParentListener this listener =
     perform (AddListener (ableton this) ''canonical_parent'' listener)"

definition removeCanonicalParentListener :: "'a ChainMixerDevice \<Rightarrow> 'cb \<Rightarrow> ('a, 'cb, unit) prog" where
  "removeCanonicalParentListener this listener =
     perform (RemoveListener (ableton this) ''canonical_parent'' listener)"

definition addChainActivatorListener :: "'a ChainMixerDevice \<Rightarrow> 'cb \<Rightarrow> ('a, 'cb, unit) prog" where
  "addChainActivatorListener this listener =
     perform (AddListener (ableton this) ''chain_activator'' listener)"

definition removeChainActivatorListener :: "'a ChainMixerDevice \<Rightarrow> 'cb \<Rightarrow> ('a, 'cb, unit) prog" where
  "removeChainActivatorListener this listener =
     perform (RemoveListener (ableton this) ''chain_activator'' listener)"

definition addPanningListener :: "'a ChainMixerDevice \<Rightarrow> 'cb \<Rightarrow> ('a, 'cb, unit) prog" where
  "addPanningListener this listener = perform (AddListener (ableton this) ''panning'' listener)"

definition removePanningListener :: "'a ChainMixerDevice \<Rightarrow> 'cb \<Rightarrow> ('a, 'cb, unit) prog" where
  "removePanningListener this listener =
     perform (RemoveListener (ableton this) ''panning'' listener)"

definition addSendsListener :: "'a ChainMixerDevice \<Rightarrow> 'cb \<Rightarrow> ('a, 'cb, unit) prog" where
  "addSendsListener this listener = perform (AddListener (ableton this) ''sends'' listener)"

definition removeSendsListener :: "'a ChainMixerDevice \<Rightarrow> 'cb \<Rightarrow> ('a, 'cb, unit) prog" where
  "removeSendsListener this listener = perform (RemoveListener (ableton this) ''sends'' listener)"

definition addVolumeListener :: "'a ChainMixerDevice \<Rightarrow> 'cb \<Rightarrow> ('a, 'cb, unit) prog" where
  "addVolumeListener this listener = perform (AddListener (ableton this) ''volume'' listener)"

definition removeVolumeListener :: "'a ChainMixerDevice \<Rightarrow> 'cb \<Rightarrow> ('a, 'cb, unit) prog" where
  "removeVolumeListener this listener =
     perform (RemoveListener (ableton this) ''volume'' listener)"

definition ChainMixerDevice_keys :: "string list" where
  "ChainMixerDevice_keys =
     [''id'', ''canonical_parent'', ''chain_activator'', ''panning'', ''sends'', ''volume'']"

definition ChainMixerDevice_toJSON :: "'a ChainMixerDevice \<Rightarrow> ('a, 'cb, js_record) prog" where
  "ChainMixerDevice_toJSON this = lift (read_props (raw this) ChainMixerDevice_keys)"

subsection \<open>Chain\<close>

definition Chain_new :: "'a \<Rightarrow> json \<Rightarrow> string option \<Rightarrow> ('a, 'cb, 'a Chain) prog" where
  "Chain_new a r p = Return \<lparr>ableton = a, raw = r, path = default_path p\<rparr>"

definition Chain_id :: "'a Chain \<Rightarrow> ('a, 'cb, json) prog" where
  "Chain_id this = lift (js_get (raw this) ''id'')"

definition getName :: "'a Chain \<Rightarrow> ('a, 'cb, json) prog" where
  "getName this = await (GetProp (ableton this) (path this) None ''name'') Return"

definition setName :: "'a Chain \<Rightarrow> json \<Rightarrow> ('a, 'cb, json) prog" where
  "setName this name = await (SetProp (ableton this) (path this) None ''name'' name) Return"

definition getColor :: "'a Chain \<Rightarrow> ('a, 'cb, json) prog" where
  "getColor this = await (GetProp (ableton this) (path this) None ''color'') Return"

definition setColor :: "'a Chain \<Rightarrow> json \<Rightarrow> ('a, 'cb, json) prog" where
  "setColor this color = await (SetProp (ableton this) (path this) None ''color'' color) Return"

definition getColorIndex :: "'a Chain \<Rightarrow> ('a, 'cb, json) prog" where
  "getColorIndex this = await (GetProp (ableton this) (path this) None ''color_index'') Return"

definition setColorIndex :: "'a Chain \<Rightarrow> json \<Rightarrow> ('a, 'cb, json) prog" where
  "setColorIndex this colorIndex =
     await (SetProp (ableton this) (path this) None ''color_index'' colorIndex) Return"

definition getIsAutoColored :: "'a Chain \<Rightarrow> ('a, 'cb, json) prog" where
  "getIsAutoColored this =
     await (GetProp (ableton this) (path this) None ''is_auto_colored'') Return"

definition setIsAutoColored :: "'a Chain \<Rightarrow> json \<Rightarrow> ('a, 'cb, json) prog" where
  "setIsAutoColored this autoColored =
     await (SetProp (ableton this) (path this) None ''is_auto_colored'' autoColored) Return"

definition getMute :: "'a Chain \<Rightarrow> ('a, 'cb, json) prog" where
  "getMute this = await (GetProp (ableton this) (path this) None ''mute'') Return"

definition setMute :: "'a Chain \<Rightarrow> json \<Rightarrow> ('a, 'cb, json) prog" where
  "setMute this mute = await (SetProp (ableton this) (path this) None ''mute'' mute) Return"

definition getSolo :: "'a Chain \<Rightarrow> ('a, 'cb, json) prog" where
  "getSolo this = await (GetProp (ableton this) (path this) None ''solo'') Return"

definition setSolo :: "'a Chain \<Rightarrow> json \<Rightarrow> ('a, 'cb, json) prog" where
  "setSolo this solo = await (SetProp (ableton this) (path this) None ''solo'' solo) Return"

definition getDevices :: "('a \<Rightarrow> json \<Rightarrow> error + 'd) \<Rightarrow> 'a Chain \<Rightarrow> ('a, 'cb, 'd list) prog" where
  "getDevices mk this =
     await (GetProp (ableton this) (path this) None ''devices'')
       (\<lambda>devicesData. lift (map_new mk (ableton this) devicesData))"


definition getMixerDevice :: "'a Chain \<Rightarrow> ('a, 'cb, 'a ChainMixerDevice) prog" where
  "getMixerDevice this =
     await (GetProp (ableton this) (path this) None ''mixer_device'')
       (\<lambda>mixerData. ChainMixerDevice_new (ableton this) mixerData None)"

definition addNameListener :: "'a Chain \<Rightarrow> 'cb \<Rightarrow> ('a, 'cb, unit) prog" where
  "addNameListener this listener = perform (AddListener (ableton this) ''name'' listener)"

definition removeNameListener :: "'a Chain \<Rightarrow> 'cb \<Rightarrow> ('a, 'cb, unit) prog" where
  "removeNameListener this listener = perform (RemoveListener (ableton this) ''name'' listener)"

definition addColorListener :: "'a Chain \<Rightarrow> 'cb \<Rightarrow> ('a, 'cb, unit) prog" where
  "addColorListener this listener = perform (AddListener (ableton this) ''color'' listener)"

definition removeColorListener :: "'a Chain \<Rightarrow> 'cb \<Rightarrow> ('a, 'cb, unit) prog" where
  "removeColorListener this listener = perform (RemoveListener (ableton this) ''color'' listener)"

definition addColorIndexListener :: "'a Chain \<Rightarrow> 'cb \<Rightarrow> ('a, 'cb, unit) prog" where
  "addColorIndexListener this listener =
     perform (AddListener (ableton this) ''color_index'' listener)"

definition removeColorIndexListener :: "'a Chain \<Rightarrow> 'cb \<Rightarrow> ('a, 'cb, unit) prog" where
  "removeColorIndexListener this listener =
     perform (RemoveListener (ableton this) ''color_index'' listener)"

definition addMuteListener :: "'a Chain \<Rightarrow> 'cb \<Rightarrow> ('a, 'cb, unit) prog" where
  "addMuteListener this listener = perform (AddListener (ableton this) ''mute'' listener)"

definition removeMuteListener :: "'a Chain \<Rightarrow> 'cb \<Rightarrow> ('a, 'cb, unit) prog" where
  "removeMuteListener this listener = perform (RemoveListener (ableton this) ''mute'' listener)"

definition addSoloListener :: "'a Chain \<Rightarrow> 'cb \<Rightarrow> ('a, 'cb, unit) prog" where
  "addSoloListener this listener = perform (AddListener (ableton this) ''solo'' listener)"

definition removeSoloListener :: "'a Chain \<Rightarrow> 'cb \<Rightarrow> ('a, 'cb, unit) prog" where
  "removeSoloListener this listener = perform (RemoveListener (ableton this) ''solo'' listener)"

definition addDevicesListener :: "'a Chain \<Rightarrow> 'cb \<Rightarrow> ('a, 'cb, unit) prog" where
  "addDevicesListener this listener = perform (AddListener (ableton this) ''devices'' listener)"

definition removeDevicesListener :: "'a Chain \<Rightarrow> 'cb \<Rightarrow> ('a, 'cb, unit) prog" where
  "removeDevicesListener this listener =
     perform (RemoveListener (ableton this) ''devices'' listener)"

definition addIsAutoColoredListener :: "'a Chain \<Rightarrow> 'cb \<Rightarrow> ('a, 'cb, unit) prog" where
  "addIsAutoColoredListener this listener =
     perform (AddListener (ableton this) ''is_auto_colored'' listener)"

definition removeIsAutoColoredListener :: "'a Chain \<Rightarrow> 'cb \<Rightarrow> ('a, 'cb, unit) prog" where
  "removeIsAutoColoredListener this listener =
     perform (RemoveListener (ableton this) ''is_auto_colored'' listener)"

definition Chain_keys :: "string list" where
  "Chain_keys =
     [''id'', ''name'', ''color'', ''color_index'', ''is_auto_colored'', ''mute'', ''solo'',
      ''devices'', ''mixer_device'']"

definition Chain_toJSON :: "'a Chain \<Rightarrow> ('a, 'cb, js_record) prog" where
  "Chain_toJSON this = lift (read_props (raw this) Chain_keys)"

subsection \<open>DrumChain\<close>

text \<open>
  The constructor fills in its own default and hands a defined path to
  \<^verbatim>\<open>super(ableton, raw, path)\<close>. The methods of \<^verbatim>\<open>Chain\<close> are inherited unchanged.
\<close>

definition DrumChain_new :: "'a \<Rightarrow> json \<Rightarrow> string option \<Rightarrow> ('a, 'cb, 'a DrumChain) prog" where
  "DrumChain_new a r p = Chain_new a r (Some (default_path p))"

definition getChokeGroup :: "'a DrumChain \<Rightarrow> ('a, 'cb, json) prog" where
  "getChokeGroup this = await (GetProp (ableton this) (path this) None ''choke_group'') Return"

definition setChokeGroup :: "'a DrumChain \<Rightarrow> json \<Rightarrow> ('a, 'cb, json) prog" where
  "setChokeGroup this chokeGroup =
     await (SetProp (ableton this) (path this) None ''choke_group'' chokeGroup) Return"

definition getOutOfKey :: "'a DrumChain \<Rightarrow> ('a, 'cb, json) prog" where
  "getOutOfKey this = await (GetProp (ableton this) (path this) None ''out_of_key'') Return"

definition setOutOfKey :: "'a DrumChain \<Rightarrow> json \<Rightarrow> ('a, 'cb, json) prog" where
  "setOutOfKey this outOfKey =
     await (SetProp (ableton this) (path this) None ''out_of_key'' outOfKey) Return"

definition getAutoSelectOnReceive :: "'a DrumChain \<Rightarrow> ('a, 'cb, json) prog" where
  "getAutoSelectOnReceive this =
     await (GetProp (ableton this) (path this) None ''auto_select_on_receive'') Return"

definition setAutoSelectOnReceive :: "'a DrumChain \<Rightarrow> json \<Rightarrow> ('a, 'cb, json) prog" where
  "setAutoSelectOnReceive this autoSelect =
     await (SetProp (ableton this) (path this) None ''auto_select_on_receive'' autoSelect) Return"

definition addChokeGroupListener :: "'a DrumChain \<Rightarrow> 'cb \<Rightarrow> ('a, 'cb, unit) prog" where
  "addChokeGroupListener this listener =
     perform (AddListener (ableton this) ''choke_group'' listener)"

definition removeChokeGroupListener :: "'a DrumChain \<Rightarrow> 'cb \<Rightarrow> ('a, 'cb, unit) prog" where
  "removeChokeGroupListener this listener =
     perform (RemoveListener (ableton this) ''choke_group'' listener)"

definition addOutOfKeyListener :: "'a DrumChain \<Rightarrow> 'cb \<Rightarrow> ('a, 'cb, unit) prog" where
  "addOutOfKeyListener this listener =
     perform (AddListener (ableton this) ''out_of_key'' listener)"

definition removeOutOfKeyListener :: "'a DrumChain \<Rightarrow> 'cb \<Rightarrow> ('a, 'cb, unit) prog" where
  "removeOutOfKeyListener this listener =
     perform (RemoveListener (ableton this) ''out_of_key'' listener)"

definition addAutoSelectOnReceiveListener :: "'a DrumChain \<Rightarrow> 'cb \<Rightarrow> ('a, 'cb, unit) prog" where
  "addAutoSelectOnReceiveListener this listener =
     perform (AddListener (ableton this) ''auto_select_on_receive'' listener)"

definition removeAutoSelectOnReceiveListener :: "'a DrumChain \<Rightarrow> 'cb \<Rightarrow> ('a, 'cb, unit) prog" where
  "removeAutoSelectOnReceiveListener this listener =
     perform (RemoveListener (ableton this) ''auto_select_on_receive'' listener)"

definition DrumChain_keys :: "string list" where
  "DrumChain_keys = [''choke_group'', ''out_of_key'', ''auto_select_on_receive'']"

definition DrumChain_toJSON :: "'a DrumChain \<Rightarrow> ('a, 'cb, js_record) prog" where
  "DrumChain_toJSON this =
     and_then (Chain_toJSON this)
       (\<lambda>super. and_then (lift (read_props (raw this) DrumChain_keys))
          (\<lambda>own. Return (define_props super own)))"

section \<open>Vocabulary for the statements about the facades\<close>

text \<open>
  The result of a method that consists of exactly one call \<open>c\<close> on the core and hands
  the answer through unchanged: the outcome is the answer, the calls made are \<open>[c]\<close>, the
  world is as the core left it.
\<close>

definition one_call ::
  "(('a, 'cb) core_call \<Rightarrow> 'w \<Rightarrow> reply \<times> 'w) \<Rightarrow> ('a, 'cb) core_call \<Rightarrow> 'w
     \<Rightarrow> (error + json) \<times> ('a, 'cb) core_call list \<times> 'w" where
  "one_call h c w =
     (case h c w of
        (rp, w') \<Rightarrow> ((case rp of Rejected e \<Rightarrow> Inl e | Resolved v \<Rightarrow> Inr v), [c], w'))"

text \<open>
  A computation reports the failure of its core call to its own caller: it begins with a
  call \<open>c\<close> on the core and, whenever the core rejects \<open>c\<close> with an error \<open>e\<close>, it
  fails with exactly \<open>e\<close>, has made no other call, and leaves the world as the core
  left it.
\<close>

definition propagates_failure ::
  "(('a, 'cb) core_call \<Rightarrow> 'w \<Rightarrow> reply \<times> 'w) \<Rightarrow> 'w \<Rightarrow> ('a, 'cb, 'r) prog \<Rightarrow> bool" where
  "propagates_failure h w p \<longleftrightarrow>
     (case p of
        Invoke c k \<Rightarrow> (\<forall>e w'. h c w = (Rejected e, w') \<longrightarrow> run h p w = (Inl e, [c], w'))
      | _ \<Rightarrow> False)"

text \<open>The value of the key \<open>k\<close> of an object: \<^verbatim>\<open>undefined\<close> when the key is absent.\<close>

definition field_of :: "js_record \<Rightarrow> string \<Rightarrow> json" where
  "field_of fs k = (case map_of fs k of None \<Rightarrow> JUndefined | Some v \<Rightarrow> v)"

subsection \<open>Concrete cores and instances\<close>

text \<open>A core that rejects every call with \<open>e\<close>, and one that accepts every call.\<close>

definition failing_core :: "error \<Rightarrow> ('a, 'cb) core_call \<Rightarrow> 'w \<Rightarrow> reply \<times> 'w" where
  "failing_core e c w = (Rejected e, w)"

definition quiet_core :: "('a, 'cb) core_call \<Rightarrow> 'w \<Rightarrow> reply \<times> 'w" where
  "quiet_core c w = (Resolved JUndefined, w)"


text \<open>A constructor that keeps its two arguments.\<close>

definition keep_args :: "'a \<Rightarrow> json \<Rightarrow> error + ('a \<times> json)" where
  "keep_args a d = Inr (a, d)"

definition kick_fields :: js_record where
  "kick_fields =
     [(''id'', JNum 7), (''name'', JStr ''Kick''), (''color'', JNum 16711680),
      (''color_index'', JNum 3), (''is_auto_colored'', JBool False),
      (''mute'', JBool False), (''solo'', JBool True),
      (''devices'', JArr [JObj [(''id'', JNum 8), (''type'', JStr ''instrument'')]]),
      (''mixer_device'', JObj [(''id'', JNum 9)]),
      (''choke_group'', JNum 1), (''out_of_key'', JBool False),
      (''auto_select_on_receive'', JBool True)]"

definition kick_raw :: json where
  "kick_raw = JObj kick_fields"

definition kick_chain :: "unit DrumChain" where
  "kick_chain = \<lparr>ableton = (), raw = kick_raw, path = ''track 0 devices 0 chains 0''\<rparr>"

definition snare_chain :: "unit DrumChain" where
  "snare_chain = \<lparr>ableton = (), raw = kick_raw, path = ''track 0 devices 0 chains 1''\<rparr>"

definition kick_mixer :: "unit ChainMixerDevice" where
  "kick_mixer =
     \<lparr>ableton = (), raw = JObj [(''id'', JNum 9)],
      path = ''track 0 devices 0 chains 0 mixer_device''\<rparr>"


section \<open>The path-addressed remote-property client\<close>

text \<open>
  The facades call into \<^verbatim>\<open>Ableton\<close>, the client that correlates requests and replies
  and keeps the listener registry. Its module is not among the files modelled above, so
  this section follows the specification of that client (sections 3 to 7). \<open>'ad\<close> is
  the type of addresses, \<open>'v\<close> of payloads, \<open>'cb\<close> of callback handles. Real time is
  not modelled: the firing of a request's timer is an input event.
\<close>

text \<open>Modelled from the spec: the operation tag of a wire frame (section 6).\<close>

datatype operation = OpGet | OpSet | OpCall string | OpEnableNotify | OpDisableNotify

text \<open>
  Modelled from the spec: the Request of section 3 as it goes out on the wire, without
  its creation time.
\<close>

record ('ad, 'v) request =
  correlation_id :: nat
  address :: 'ad
  operation :: operation
  arguments :: "'v list"

text \<open>
  Modelled from the spec: a decoded inbound frame (section 4.2), a reply carrying a value
  or the host's error detail, an unsolicited event, or a frame that does not decode.
\<close>

datatype ('ad, 'v) inbound =
    Reply nat "string + 'v"
  | Event 'ad 'v
  | Malformed

text \<open>
  Modelled from the spec: the state of the Request Correlator and the Listener Registry.
  \<open>pending\<close> maps a correlation id to the PendingReply of the request in flight;
  PendingReplies are numbered by \<open>next_reply\<close>; \<open>settled\<close> lists every completion of a
  PendingReply in the order it happened; \<open>outbox\<close> lists the frames handed to the
  Transport; \<open>subs\<close> gives the callbacks subscribed to an address in insertion order;
  \<open>invoked\<close> lists the callback invocations; \<open>dropped\<close> counts the malformed frames.
\<close>

record ('ad, 'v, 'cb) client =
  pending :: "(nat \<times> nat) list"
  next_reply :: nat
  settled :: "(nat \<times> (error + 'v)) list"
  outbox :: "('ad, 'v) request list"
  subs :: "'ad \<Rightarrow> 'cb list"
  invoked :: "('cb \<times> 'ad \<times> 'v) list"
  dropped :: nat

text \<open>Modelled from the spec: the client before any request or subscription.\<close>

definition init_client :: "('ad, 'v, 'cb) client" where
  "init_client =
     \<lparr>pending = [], next_reply = 0, settled = [], outbox = [], subs = (\<lambda>a. []),
      invoked = [], dropped = 0\<rparr>"

text \<open>
  Modelled from the spec: the allocation of a fresh correlation id, one that no pending
  request bears. The specification leaves the choice open; this allocator takes the least
  free id, so an id released by a completed request is handed out again.
\<close>

definition fresh_cid :: "nat list \<Rightarrow> nat" where
  "fresh_cid used =
     (case filter (\<lambda>n. n \<notin> set used) [0..<Suc (length used)] of
        [] \<Rightarrow> Suc (length used)
      | n # ns \<Rightarrow> n)"

text \<open>
  Modelled from the spec: \<^verbatim>\<open>submit\<close> of section 4.3. It allocates a fresh correlation
  id, records the pending entry, hands the frame to the Transport and returns the
  PendingReply. The timer it starts is the later event \<open>TimerFired\<close> of that
  PendingReply. Failures of the Transport to send are not modelled.
\<close>

definition submit ::
  "'ad \<Rightarrow> operation \<Rightarrow> 'v list \<Rightarrow> ('ad, 'v, 'cb) client \<Rightarrow> nat \<times> ('ad, 'v, 'cb) client" where
  "submit a op args st =
     (let c = fresh_cid (map fst (pending st)); h = next_reply st
      in (h, st\<lparr>pending := pending st @ [(c, h)],
                next_reply := Suc h,
                outbox := outbox st @
                  [\<lparr>correlation_id = c, address = a, operation = op, arguments = args\<rparr>]\<rparr>))"

text \<open>
  Modelled from the spec: completing the request that bears a correlation id. The pending
  entry is removed and its PendingReply is completed; with no pending entry for the id
  the attempt is discarded.
\<close>

definition settle ::
  "nat \<Rightarrow> error + 'v \<Rightarrow> ('ad, 'v, 'cb) client \<Rightarrow> ('ad, 'v, 'cb) client" where
  "settle c r st =
     (case map_of (pending st) c of
        None \<Rightarrow> st
      | Some h \<Rightarrow> st\<lparr>pending := filter (\<lambda>e. fst e \<noteq> c) (pending st),
                      settled := settled st @ [(h, r)]\<rparr>)"

text \<open>Modelled from the spec: \<^verbatim>\<open>resolve(correlation_id, value)\<close> of section 4.3.\<close>

definition resolve :: "nat \<Rightarrow> 'v \<Rightarrow> ('ad, 'v, 'cb) client \<Rightarrow> ('ad, 'v, 'cb) client" where
  "resolve c v st = settle c (Inr v) st"

text \<open>Modelled from the spec: \<^verbatim>\<open>fail(correlation_id, error)\<close> of section 4.3.\<close>

definition fail :: "nat \<Rightarrow> error \<Rightarrow> ('ad, 'v, 'cb) client \<Rightarrow> ('ad, 'v, 'cb) client" where
  "fail c e st = settle c (Inl e) st"

text \<open>
  Modelled from the spec: the timer of the PendingReply \<open>h\<close> fires. If its request is
  still pending, the entry is removed and the PendingReply fails with \<open>Timeout\<close>;
  otherwise nothing happens.
\<close>

definition on_timeout :: "nat \<Rightarrow> ('ad, 'v, 'cb) client \<Rightarrow> ('ad, 'v, 'cb) client" where
  "on_timeout h st =
     (case find (\<lambda>e. snd e = h) (pending st) of
        None \<Rightarrow> st
      | Some e \<Rightarrow> fail (fst e) Timeout st)"

text \<open>
  Modelled from the spec: \<^verbatim>\<open>dispatch(Event)\<close> of section 4.4. Every callback subscribed
  to the event's address at the time of arrival is invoked, in insertion order.
\<close>

definition dispatch :: "'ad \<Rightarrow> 'v \<Rightarrow> ('ad, 'v, 'cb) client \<Rightarrow> ('ad, 'v, 'cb) client" where
  "dispatch a payload st =
     st\<lparr>invoked := invoked st @ map (\<lambda>cb. (cb, a, payload)) (subs st a)\<rparr>"

text \<open>
  Modelled from the spec: the router at the Transport boundary. A reply goes to the
  Request Correlator (an error reply fails the request with \<open>ProtocolError\<close> and the
  host's detail), an event to the Listener Registry, a malformed frame is counted and
  dropped.
\<close>

definition on_receive :: "('ad, 'v) inbound \<Rightarrow> ('ad, 'v, 'cb) client \<Rightarrow> ('ad, 'v, 'cb) client" where
  "on_receive f st =
     (case f of
        Reply c (Inr v) \<Rightarrow> resolve c v st
      | Reply c (Inl detail) \<Rightarrow> fail c (ProtocolError detail) st
      | Event a payload \<Rightarrow> dispatch a payload st
      | Malformed \<Rightarrow> st\<lparr>dropped := Suc (dropped st)\<rparr>)"

text \<open>Modelled from the spec: \<^verbatim>\<open>getProp\<close> of section 4.5, one submission.\<close>

definition core_getProp :: "'ad \<Rightarrow> ('ad, 'v, 'cb) client \<Rightarrow> nat \<times> ('ad, 'v, 'cb) client" where
  "core_getProp a st = submit a OpGet [] st"

text \<open>Modelled from the spec: \<^verbatim>\<open>setProp\<close> of section 4.5, one submission.\<close>

definition core_setProp :: "'ad \<Rightarrow> 'v \<Rightarrow> ('ad, 'v, 'cb) client \<Rightarrow> nat \<times> ('ad, 'v, 'cb) client" where
  "core_setProp a v st = submit a OpSet [v] st"

text \<open>Modelled from the spec: \<^verbatim>\<open>call\<close> of section 4.5, one submission.\<close>

definition core_call ::
  "'ad \<Rightarrow> string \<Rightarrow> 'v list \<Rightarrow> ('ad, 'v, 'cb) client \<Rightarrow> nat \<times> ('ad, 'v, 'cb) client" where
  "core_call a m args st = submit a (OpCall m) args st"

text \<open>
  Modelled from the spec: \<^verbatim>\<open>addListener\<close> of section 4.4. The callbacks of an address
  form a set kept in insertion order. The first subscription for the address issues an
  "enable notifications" request through the Request Correlator, whose PendingReply is
  returned to the caller.
\<close>

definition core_addListener ::
  "'ad \<Rightarrow> 'cb \<Rightarrow> ('ad, 'v, 'cb) client \<Rightarrow> nat option \<times> ('ad, 'v, 'cb) client" where
  "core_addListener a cb st =
     (if cb \<in> set (subs st a) then (None, st)
      else
        (let st1 = st\<lparr>subs := (subs st)(a := subs st a @ [cb])\<rparr>
         in if subs st a = [] then map_prod Some id (submit a OpEnableNotify [] st1)
            else (None, st1)))"

text \<open>
  Modelled from the spec: \<^verbatim>\<open>removeListener\<close> of section 4.4. Removing the last
  subscription of the address issues a "disable notifications" request, whose outcome is
  not reported.
\<close>

definition core_removeListener ::
  "'ad \<Rightarrow> 'cb \<Rightarrow> ('ad, 'v, 'cb) client \<Rightarrow> ('ad, 'v, 'cb) client" where
  "core_removeListener a cb st =
     (if cb \<notin> set (subs st a) then st
      else
        (let st1 = st\<lparr>subs := (subs st)(a := remove1 cb (subs st a))\<rparr>
         in if remove1 cb (subs st a) = [] then snd (submit a OpDisableNotify [] st1)
            else st1))"

text \<open>
  Modelled from the spec: everything that can happen to the client, in the order in which
  the single reader of the Transport and the callers make it happen (section 5).
\<close>

datatype ('ad, 'v, 'cb) event =
    Submit 'ad operation "'v list"
  | Receive "('ad, 'v) inbound"
  | TimerFired nat
  | AddListenerEv 'ad 'cb
  | RemoveListenerEv 'ad 'cb

text \<open>Modelled from the spec: the effect of one event on the client.\<close>

fun step :: "('ad, 'v, 'cb) event \<Rightarrow> ('ad, 'v, 'cb) client \<Rightarrow> ('ad, 'v, 'cb) client" where
  "step (Submit a op args) st = snd (submit a op args st)"
| "step (Receive f) st = on_receive f st"
| "step (TimerFired h) st = on_timeout h st"
| "step (AddListenerEv a cb) st = snd (core_addListener a cb st)"
| "step (RemoveListenerEv a cb) st = core_removeListener a cb st"

text \<open>Modelled from the spec: a history of events, applied from left to right.\<close>

fun run_events :: "('ad, 'v, 'cb) event list \<Rightarrow> ('ad, 'v, 'cb) client \<Rightarrow> ('ad, 'v, 'cb) client" where
  "run_events [] st = st"
| "run_events (e # es) st = run_events es (step e st)"

subsection \<open>Vocabulary for the statements about the client\<close>

text \<open>The completions that the PendingReply \<open>h\<close> has received, in order.\<close>

definition completions :: "nat \<Rightarrow> ('ad, 'v, 'cb) client \<Rightarrow> (error + 'v) list" where
  "completions h st = map snd (filter (\<lambda>e. fst e = h) (settled st))"

text \<open>The result a reply carries, as the caller sees it.\<close>

definition outcome_of :: "string + 'v \<Rightarrow> error + 'v" where
  "outcome_of r = (case r of Inl detail \<Rightarrow> Inl (ProtocolError detail) | Inr v \<Rightarrow> Inr v)"

text \<open>
  What an event tries to complete the request with correlation id \<open>c\<close> and PendingReply
  \<open>h\<close> with: a reply bearing \<open>c\<close> with its result, the timer of \<open>h\<close> with \<open>Timeout\<close>,
  any other event with nothing.
\<close>

fun attempt :: "nat \<Rightarrow> nat \<Rightarrow> ('ad, 'v, 'cb) event \<Rightarrow> (error + 'v) option" where
  "attempt c h (Receive (Reply c' r)) = (if c' = c then Some (outcome_of r) else None)"
| "attempt c h (TimerFired h') = (if h' = h then Some (Inl Timeout) else None)"
| "attempt c h e = None"

fun first_attempt :: "nat \<Rightarrow> nat \<Rightarrow> ('ad, 'v, 'cb) event list \<Rightarrow> (error + 'v) option" where
  "first_attempt c h [] = None"
| "first_attempt c h (e # es) =
     (case attempt c h e of None \<Rightarrow> first_attempt c h es | Some r \<Rightarrow> Some r)"

text \<open>
  The invariant of the correlator: correlation ids and PendingReplies of pending requests
  are pairwise distinct, every PendingReply handed out is below \<open>next_reply\<close>, and no
  pending request has been completed.
\<close>

definition client_inv :: "('ad, 'v, 'cb) client \<Rightarrow> bool" where
  "client_inv st \<longleftrightarrow>
     distinct (map fst (pending st)) \<and>
     distinct (map snd (pending st)) \<and>
     (\<forall>e \<in> set (pending st). snd e < next_reply st) \<and>
     (\<forall>e \<in> set (settled st). fst e < next_reply st) \<and>
     (\<forall>e \<in> set (pending st). snd e \<notin> fst ` set (settled st))"

text \<open>A request that was handed out and is no longer pending.\<close>

definition retired :: "nat \<Rightarrow> ('ad, 'v, 'cb) client \<Rightarrow> bool" where
  "retired h st \<longleftrightarrow> h < next_reply st \<and> h \<notin> snd ` set (pending st)"

text \<open>The frames handed to the Transport between two states.\<close>

definition sent_since :: "('ad, 'v, 'cb) client \<Rightarrow> ('ad, 'v, 'cb) client \<Rightarrow> ('ad, 'v) request list" where
  "sent_since st st' = drop (length (outbox st)) (outbox st')"


subsection \<open>A host that echoes stored state\<close>

text \<open>
  Modelled from the spec: the mock host of section 8. It stores what \<^verbatim>\<open>set\<close> writes and
  answers \<^verbatim>\<open>get\<close> with what is stored, under the correlation id of the request.
\<close>

definition host_serve ::
  "('ad, 'v) request \<Rightarrow> ('ad \<Rightarrow> 'v option) \<Rightarrow> ('ad, 'v) inbound \<times> ('ad \<Rightarrow> 'v option)" where
  "host_serve rq store =
     (case operation rq of
        OpGet \<Rightarrow>
          (case store (address rq) of
             None \<Rightarrow> (Reply (correlation_id rq) (Inl ''no such property''), store)
           | Some v \<Rightarrow> (Reply (correlation_id rq) (Inr v), store))
      | OpSet \<Rightarrow>
          (case arguments rq of
             [v] \<Rightarrow> (Reply (correlation_id rq) (Inr v), store(address rq \<mapsto> v))
           | _ \<Rightarrow> (Reply (correlation_id rq) (Inl ''bad arguments''), store))
      | _ \<Rightarrow> (Reply (correlation_id rq) (Inl ''unsupported operation''), store))"

text \<open>
  Modelled from the spec: a transport that delivers each frame to the host and the
  host's reply back to the client, in order and without loss.
\<close>

fun serve_frames ::
  "('ad, 'v) request list \<Rightarrow> ('ad, 'v, 'cb) client \<times> ('ad \<Rightarrow> 'v option)
     \<Rightarrow> ('ad, 'v, 'cb) client \<times> ('ad \<Rightarrow> 'v option)" where
  "serve_frames [] x = x"
| "serve_frames (rq # rqs) (st, store) =
     (case host_serve rq store of (f, store') \<Rightarrow> serve_frames rqs (on_receive f st, store'))"

text \<open>
  Modelled from the spec: a sequential call, which submits the request, lets the host
  serve the frames sent, and reads the completions of its PendingReply.
\<close>

definition sequential ::
  "(('ad, 'v, 'cb) client \<Rightarrow> nat \<times> ('ad, 'v, 'cb) client)
     \<Rightarrow> ('ad, 'v, 'cb) client \<times> ('ad \<Rightarrow> 'v option)
     \<Rightarrow> (error + 'v) list \<times> ('ad, 'v, 'cb) client \<times> ('ad \<Rightarrow> 'v option)" where
  "sequential request x =
     (case x of (st, store) \<Rightarrow>
        (case request st of (h, st1) \<Rightarrow>
           (case serve_frames (sent_since st st1) (st1, store) of
              (st2, store') \<Rightarrow> (completions h st2, st2, store'))))"

subsection \<open>Sequences of listener calls on one address\<close>





subsection \<open>Concrete histories\<close>

definition two_requests :: "(string, real, nat) event list" where
  "two_requests = [Submit ''track 0 volume'' OpGet [], Submit ''track 1 volume'' OpGet []]"

definition shuffled_replies :: "(string, real, nat) event list" where
  "shuffled_replies =
     [Receive (Reply 1 (Inr 0.5)), Receive (Reply 0 (Inr 0.75)), Receive (Reply 1 (Inr 0.25)),
      TimerFired 0, Receive (Reply 0 (Inl ''late''))]"

definition silence :: "(string, real, nat) event list" where
  "silence = [Receive Malformed, Receive (Reply 5 (Inr 1)), Receive (Event ''track 0 volume'' 0.5)]"

definition empty_client :: "(string, real, nat) client" where
  "empty_client = init_client"


section \<open>Running the facade methods\<close>

lemma run_lift: "run h (lift x) w = (x, [], w)"
  by (cases x) (simp_all add: lift_def)

lemma run_await_Return: "run h (await c Return) w = one_call h c w"
  by (simp add: await_def one_call_def split: prod.split reply.split)

lemma run_and_then:
  "run h (and_then p f) w =
     (case run h p w of
        (Inl e, tr, w') \<Rightarrow> (Inl e, tr, w')
      | (Inr r, tr, w') \<Rightarrow> (case run h (f r) w' of (out, tr2, w'') \<Rightarrow> (out, tr @ tr2, w'')))"
  by (induction p arbitrary: w) (auto split: prod.split sum.split)

lemma run_try_catch_pure:
  "run h (try_catch p (\<lambda>e. Return d)) w =
     (case run h p w of (Inl e, tr, w') \<Rightarrow> (Inr d, tr, w') | (Inr r, tr, w') \<Rightarrow> (Inr r, tr, w'))"
  by (induction p arbitrary: w) (auto split: prod.split sum.split)

lemma propagates_await: "propagates_failure h w (await c k)"
  by (simp add: propagates_failure_def await_def)

lemma read_props_object: "read_props (JObj fs) ks = Inr (map (\<lambda>k. (k, field_of fs k)) ks)"
  by (induction ks) (simp_all add: field_of_def)

lemma define_props_fresh:
  "distinct (map fst own) \<Longrightarrow> set (map fst own) \<inter> set (map fst obj) = {} \<Longrightarrow>
   define_props obj own = obj @ own"
proof (induction own arbitrary: obj)
  case Nil
  then show ?case by simp
next
  case (Cons kv own)
  obtain k v where kv: "kv = (k, v)" by (cases kv)
  have notin: "k \<notin> fst ` set obj" using Cons.prems kv by auto
  have upd: "AList.update k v obj = obj @ [(k, v)]"
    using notin by (induction obj) auto
  have "define_props (obj @ [(k, v)]) own = (obj @ [(k, v)]) @ own"
    using Cons.prems kv by (intro Cons.IH) auto
  then show ?case by (simp add: kv upd)
qed

lemma try_new_cases:
  "run h (try_catch (await c (\<lambda>data. lift (map_sum id Some (mk a data)))) (\<lambda>error. Return None)) w =
     (case h c w of
        (Rejected e, w') \<Rightarrow> (Inr None, [c], w')
      | (Resolved data, w') \<Rightarrow>
          (case mk a data of Inl e \<Rightarrow> (Inr None, [c], w') | Inr x \<Rightarrow> (Inr (Some x), [c], w')))"
  unfolding run_try_catch_pure
  by (simp add: await_def run_lift split: prod.split reply.split sum.split)

lemma chain_accessors:
  "run h (getName this) w = one_call h (GetProp (ableton this) (path this) None ''name'') w"
  "run h (setName this v) w = one_call h (SetProp (ableton this) (path this) None ''name'' v) w"
  "run h (getColor this) w = one_call h (GetProp (ableton this) (path this) None ''color'') w"
  "run h (setColor this v) w = one_call h (SetProp (ableton this) (path this) None ''color'' v) w"
  "run h (getColorIndex this) w =
     one_call h (GetProp (ableton this) (path this) None ''color_index'') w"
  "run h (setColorIndex this v) w =
     one_call h (SetProp (ableton this) (path this) None ''color_index'' v) w"
  "run h (getIsAutoColored this) w =
     one_call h (GetProp (ableton this) (path this) None ''is_auto_colored'') w"
  "run h (setIsAutoColored this v) w =
     one_call h (SetProp (ableton this) (path this) None ''is_auto_colored'' v) w"
  "run h (getMute this) w = one_call h (GetProp (ableton this) (path this) None ''mute'') w"
  "run h (setMute this v) w = one_call h (SetProp (ableton this) (path this) None ''mute'' v) w"
  "run h (getSolo this) w = one_call h (GetProp (ableton this) (path this) None ''solo'') w"
  "run h (setSolo this v) w = one_call h (SetProp (ableton this) (path this) None ''solo'' v) w"
  unfolding getName_def setName_def getColor_def setColor_def getColorIndex_def setColorIndex_def
    getIsAutoColored_def setIsAutoColored_def getMute_def setMute_def getSolo_def setSolo_def
  by (rule run_await_Return)+

lemma drum_chain_accessors:
  "run h (getChokeGroup this) w =
     one_call h (GetProp (ableton this) (path this) None ''choke_group'') w"
  "run h (setChokeGroup this v) w =
     one_call h (SetProp (ableton this) (path this) None ''choke_group'' v) w"
  "run h (getOutOfKey this) w =
     one_call h (GetProp (ableton this) (path this) None ''out_of_key'') w"
  "run h (setOutOfKey this v) w =
     one_call h (SetProp (ableton this) (path this) None ''out_of_key'' v) w"
  "run h (getAutoSelectOnReceive this) w =
     one_call h (GetProp (ableton this) (path this) None ''auto_select_on_receive'') w"
  "run h (setAutoSelectOnReceive this v) w =
     one_call h (SetProp (ableton this) (path this) None ''auto_select_on_receive'' v) w"
  unfolding getChokeGroup_def setChokeGroup_def getOutOfKey_def setOutOfKey_def
    getAutoSelectOnReceive_def setAutoSelectOnReceive_def
  by (rule run_await_Return)+

lemma mixer_accessors:
  "run h (getCanonicalParent this) w =
     one_call h (GetProp (ableton this) (path this) None ''canonical_parent'') w"
  unfolding getCanonicalParent_def by (rule run_await_Return)

lemma chain_propagates:
  "propagates_failure h w (getName this)"
  "propagates_failure h w (setName this v)"
  "propagates_failure h w (getColor this)"
  "propagates_failure h w (setColor this v)"
  "propagates_failure h w (getColorIndex this)"
  "propagates_failure h w (setColorIndex this v)"
  "propagates_failure h w (getIsAutoColored this)"
  "propagates_failure h w (setIsAutoColored this v)"
  "propagates_failure h w (getMute this)"
  "propagates_failure h w (setMute this v)"
  "propagates_failure h w (getSolo this)"
  "propagates_failure h w (setSolo this v)"
  "propagates_failure h w (getDevices mk this)"
  "propagates_failure h w (getMixerDevice this)"
  unfolding getName_def setName_def getColor_def setColor_def getColorIndex_def setColorIndex_def
    getIsAutoColored_def setIsAutoColored_def getMute_def setMute_def getSolo_def setSolo_def
    getDevices_def getMixerDevice_def
  by (rule propagates_await)+

lemma drum_chain_propagates:
  "propagates_failure h w (getChokeGroup this)"
  "propagates_failure h w (setChokeGroup this v)"
  "propagates_failure h w (getOutOfKey this)"
  "propagates_failure h w (setOutOfKey this v)"
  "propagates_failure h w (getAutoSelectOnReceive this)"
  "propagates_failure h w (setAutoSelectOnReceive this v)"
  unfolding getChokeGroup_def setChokeGroup_def getOutOfKey_def setOutOfKey_def
    getAutoSelectOnReceive_def setAutoSelectOnReceive_def
  by (rule propagates_await)+

lemma mixer_propagates:
  "propagates_failure h w (getCanonicalParent this)"
  "propagates_failure h w (getChainActivator mk this)"
  "propagates_failure h w (getPanning mk this)"
  "propagates_failure h w (getSends mk this)"
  "propagates_failure h w (getVolume mk this)"
  unfolding getCanonicalParent_def getChainActivator_def getPanning_def getSends_def getVolume_def
  by (rule propagates_await)+


section \<open>Properties of the facades\<close>

text \<open>
  Claim C4, evaluated on the code. The claim asks that the key a facade passes to
  \<^verbatim>\<open>addListener\<close> and \<^verbatim>\<open>removeListener\<close> identifies the observed property under the
  facade's stored path, so that two instances with different paths use different keys.
  The methods pass the bare property name: two drum chains stored under different paths
  register under the same key \<^verbatim>\<open>name\<close> (and \<^verbatim>\<open>choke_group\<close>), and a mixer device
  registers under \<^verbatim>\<open>volume\<close>, whatever its path.
\<close>

theorem listener_key_is_bare_property_name:
  "path kick_chain \<noteq> path snare_chain \<and>
   fst (snd (run quiet_core (addNameListener kick_chain (0::nat)) ())) =
     [AddListener () ''name'' 0] \<and>
   fst (snd (run quiet_core (addNameListener snare_chain (0::nat)) ())) =
     [AddListener () ''name'' 0] \<and>
   fst (snd (run quiet_core (removeNameListener kick_chain (0::nat)) ())) =
     [RemoveListener () ''name'' 0] \<and>
   fst (snd (run quiet_core (removeNameListener snare_chain (0::nat)) ())) =
     [RemoveListener () ''name'' 0] \<and>
   fst (snd (run quiet_core (addChokeGroupListener kick_chain (0::nat)) ())) =
     fst (snd (run quiet_core (addChokeGroupListener snare_chain (0::nat)) ())) \<and>
   fst (snd (run quiet_core (addChokeGroupListener kick_chain (0::nat)) ())) =
     [AddListener () ''choke_group'' 0] \<and>
   fst (snd (run quiet_core (addVolumeListener kick_mixer (0::nat)) ())) =
     [AddListener () ''volume'' 0] \<and>
   fst (snd (run quiet_core (removeVolumeListener kick_mixer (0::nat)) ())) =
     [RemoveListener () ''volume'' 0]"
  by (simp add: kick_chain_def snare_chain_def kick_mixer_def quiet_core_def perform_def
      addNameListener_def removeNameListener_def addChokeGroupListener_def
      addVolumeListener_def removeVolumeListener_def)

text \<open>
  Claim C5, as the code has it. The claim says that every facade operation that performs
  a core \<^verbatim>\<open>getProp\<close> or \<^verbatim>\<open>setProp\<close> call reports a failure of that call unchanged to
  its own caller. \<^verbatim>\<open>getSend\<close> and \<^verbatim>\<open>getDevice\<close> do not: with a core that fails every
  call with \<open>Timeout\<close>, \<^verbatim>\<open>getSend(0)\<close> resolves to \<^verbatim>\<open>null\<close>.
\<close>

theorem getSend_swallows_core_failure:
  "failing_core Timeout (GetProp () (path kick_mixer) None ''sends 0'') () = (Rejected Timeout, ()) \<and>
   run (failing_core Timeout) (getSend keep_args kick_mixer 0) () =
     (Inr None, [GetProp () (path kick_mixer) None ''sends 0''], ()) \<and>
   \<not> propagates_failure (failing_core Timeout) () (getSend keep_args kick_mixer 0)"
  by (simp add: getSend_def try_new_cases failing_core_def show_int_def digit_char_def
      propagates_failure_def await_def)

text \<open>
  Claim C5, amended. Every facade operation that performs a core \<^verbatim>\<open>getProp\<close> or
  \<^verbatim>\<open>setProp\<close> call, other than \<^verbatim>\<open>getSend\<close> and \<^verbatim>\<open>getDevice\<close>, reports a failure of
  that call to its own caller with exactly the error of the core, whichever error it is
  (so in particular \<open>Timeout\<close>, \<open>TransportError\<close>, \<open>ProtocolError\<close> and
  \<open>ShuttingDown\<close>); it makes no other core call, and the state of the world, every other
  pending operation included, is as the core's call left it.
\<close>

theorem core_failure_reaches_caller:
  "propagates_failure h w (getName this) \<and>
   propagates_failure h w (setName this v) \<and>
   propagates_failure h w (getColor this) \<and>
   propagates_failure h w (setColor this v) \<and>
   propagates_failure h w (getColorIndex this) \<and>
   propagates_failure h w (setColorIndex this v) \<and>
   propagates_failure h w (getIsAutoColored this) \<and>
   propagates_failure h w (setIsAutoColored this v) \<and>
   propagates_failure h w (getMute this) \<and>
   propagates_failure h w (setMute this v) \<and>
   propagates_failure h w (getSolo this) \<and>
   propagates_failure h w (setSolo this v) \<and>
   propagates_failure h w (getDevices mkDevice this) \<and>
   propagates_failure h w (getMixerDevice this) \<and>
   propagates_failure h w (getChokeGroup this) \<and>
   propagates_failure h w (setChokeGroup this v) \<and>
   propagates_failure h w (getOutOfKey this) \<and>
   propagates_failure h w (setOutOfKey this v) \<and>
   propagates_failure h w (getAutoSelectOnReceive this) \<and>
   propagates_failure h w (setAutoSelectOnReceive this v) \<and>
   propagates_failure h w (getCanonicalParent this) \<and>
   propagates_failure h w (getChainActivator mkParameter this) \<and>
   propagates_failure h w (getPanning mkParameter this) \<and>
   propagates_failure h w (getSends mkParameter this) \<and>
   propagates_failure h w (getVolume mkParameter this)"
  by (intro conjI chain_propagates drum_chain_propagates mixer_propagates)

theorem core_failure_reaches_caller_witness:
  "failing_core (ProtocolError ''no such property'')
     (GetProp () (path kick_chain) None ''name'') () =
     (Rejected (ProtocolError ''no such property''), ()) \<and>
   run (failing_core (ProtocolError ''no such property'')) (getName kick_chain) () =
     (Inl (ProtocolError ''no such property''), [GetProp () (path kick_chain) None ''name''], ()) \<and>
   run (failing_core Timeout) (getVolume keep_args kick_mixer) () =
     (Inl Timeout, [GetProp () (path kick_mixer) None ''volume''], ())"
  using core_failure_reaches_caller
    [of "failing_core (ProtocolError ''no such property'')" "()" kick_chain JNull keep_args keep_args]
    core_failure_reaches_caller
    [of "failing_core Timeout" "()" kick_mixer JNull keep_args keep_args]
  by (simp add: propagates_failure_def getName_def getVolume_def await_def failing_core_def)

text \<open>
  Claim C6. Every scalar property getter and setter of \<^verbatim>\<open>Chain\<close>, \<^verbatim>\<open>DrumChain\<close> and
  \<^verbatim>\<open>ChainMixerDevice\<close> is exactly one call of the core's \<^verbatim>\<open>getProp\<close> (for a getter) or
  \<^verbatim>\<open>setProp\<close> (for a setter), with the stored path, no namespace id and the property's
  name; the getter's outcome is the answer of \<^verbatim>\<open>getProp\<close> unchanged, and the setter
  forwards its argument unchanged.
\<close>

theorem scalar_accessors_are_one_core_call:
  "run h (getName this) w = one_call h (GetProp (ableton this) (path this) None ''name'') w \<and>
   run h (setName this v) w = one_call h (SetProp (ableton this) (path this) None ''name'' v) w \<and>
   run h (getColor this) w = one_call h (GetProp (ableton this) (path this) None ''color'') w \<and>
   run h (setColor this v) w = one_call h (SetProp (ableton this) (path this) None ''color'' v) w \<and>
   run h (getColorIndex this) w =
     one_call h (GetProp (ableton this) (path this) None ''color_index'') w \<and>
   run h (setColorIndex this v) w =
     one_call h (SetProp (ableton this) (path this) None ''color_index'' v) w \<and>
   run h (getIsAutoColored this) w =
     one_call h (GetProp (ableton this) (path this) None ''is_auto_colored'') w \<and>
   run h (setIsAutoColored this v) w =
     one_call h (SetProp (ableton this) (path this) None ''is_auto_colored'' v) w \<and>
   run h (getMute this) w = one_call h (GetProp (ableton this) (path this) None ''mute'') w \<and>
   run h (setMute this v) w = one_call h (SetProp (ableton this) (path this) None ''mute'' v) w \<and>
   run h (getSolo this) w = one_call h (GetProp (ableton this) (path this) None ''solo'') w \<and>
   run h (setSolo this v) w = one_call h (SetProp (ableton this) (path this) None ''solo'' v) w \<and>
   run h (getChokeGroup this) w =
     one_call h (GetProp (ableton this) (path this) None ''choke_group'') w \<and>
   run h (setChokeGroup this v) w =
     one_call h (SetProp (ableton this) (path this) None ''choke_group'' v) w \<and>
   run h (getOutOfKey this) w =
     one_call h (GetProp (ableton this) (path this) None ''out_of_key'') w \<and>
   run h (setOutOfKey this v) w =
     one_call h (SetProp (ableton this) (path this) None ''out_of_key'' v) w \<and>
   run h (getAutoSelectOnReceive this) w =
     one_call h (GetProp (ableton this) (path this) None ''auto_select_on_receive'') w \<and>
   run h (setAutoSelectOnReceive this v) w =
     one_call h (SetProp (ableton this) (path this) None ''auto_select_on_receive'' v) w \<and>
   run h (getCanonicalParent this) w =
     one_call h (GetProp (ableton this) (path this) None ''canonical_parent'') w"
  by (intro conjI chain_accessors drum_chain_accessors mixer_accessors)



text \<open>
  Claim C9. For every instance of \<^verbatim>\<open>Chain\<close>, \<^verbatim>\<open>DrumChain\<close> and \<^verbatim>\<open>ChainMixerDevice\<close>,
  \<^verbatim>\<open>toJSON\<close> performs no core operation and changes no state. On an instance whose raw
  snapshot is an object, as its type says, it returns an object whose fields are exactly
  the corresponding fields of the snapshot, and \<^verbatim>\<open>DrumChain.toJSON\<close> returns the fields of
  \<^verbatim>\<open>Chain.toJSON\<close> followed by \<^verbatim>\<open>choke_group\<close>, \<^verbatim>\<open>out_of_key\<close> and
  \<^verbatim>\<open>auto_select_on_receive\<close> of the snapshot.
\<close>

theorem toJSON_reads_snapshot_only:
  "snd (run h (Chain_toJSON this) w) = ([], w) \<and>
   snd (run h (DrumChain_toJSON this) w) = ([], w) \<and>
   snd (run h (ChainMixerDevice_toJSON this) w) = ([], w) \<and>
   (raw this = JObj fs \<longrightarrow>
      fst (run h (Chain_toJSON this) w) = Inr (map (\<lambda>k. (k, field_of fs k)) Chain_keys) \<and>
      fst (run h (ChainMixerDevice_toJSON this) w) =
        Inr (map (\<lambda>k. (k, field_of fs k)) ChainMixerDevice_keys) \<and>
      fst (run h (DrumChain_toJSON this) w) =
        Inr (map (\<lambda>k. (k, field_of fs k)) Chain_keys @
             [(''choke_group'', field_of fs ''choke_group''),
              (''out_of_key'', field_of fs ''out_of_key''),
              (''auto_select_on_receive'', field_of fs ''auto_select_on_receive'')]))"
proof -
  have 1: "snd (run h (Chain_toJSON this) w) = ([], w)"
    by (simp add: Chain_toJSON_def run_lift)
  have 2: "snd (run h (DrumChain_toJSON this) w) = ([], w)"
    by (simp add: DrumChain_toJSON_def Chain_toJSON_def run_and_then run_lift
        split: sum.split prod.split)
  have 3: "snd (run h (ChainMixerDevice_toJSON this) w) = ([], w)"
    by (simp add: ChainMixerDevice_toJSON_def run_lift)
  have 4: "fst (run h (Chain_toJSON this) w) = Inr (map (\<lambda>k. (k, field_of fs k)) Chain_keys)"
    if "raw this = JObj fs"
    using that by (simp add: Chain_toJSON_def run_lift read_props_object)
  have 5: "fst (run h (ChainMixerDevice_toJSON this) w) =
      Inr (map (\<lambda>k. (k, field_of fs k)) ChainMixerDevice_keys)"
    if "raw this = JObj fs"
    using that by (simp add: ChainMixerDevice_toJSON_def run_lift read_props_object)
  have fresh: "define_props (map (\<lambda>k. (k, field_of fs k)) Chain_keys)
        (map (\<lambda>k. (k, field_of fs k)) DrumChain_keys) =
      map (\<lambda>k. (k, field_of fs k)) Chain_keys @ map (\<lambda>k. (k, field_of fs k)) DrumChain_keys"
    by (rule define_props_fresh) (simp_all add: Chain_keys_def DrumChain_keys_def)
  have 6: "fst (run h (DrumChain_toJSON this) w) =
      Inr (map (\<lambda>k. (k, field_of fs k)) Chain_keys @
           [(''choke_group'', field_of fs ''choke_group''),
            (''out_of_key'', field_of fs ''out_of_key''),
            (''auto_select_on_receive'', field_of fs ''auto_select_on_receive'')])"
    if "raw this = JObj fs"
    using that fresh
    by (simp add: DrumChain_toJSON_def Chain_toJSON_def read_props_object lift_def)
      (simp add: DrumChain_keys_def)
  show ?thesis using 1 2 3 4 5 6 by blast
qed

theorem toJSON_reads_snapshot_only_witness:
  "raw kick_chain = JObj kick_fields \<and>
   run quiet_core (DrumChain_toJSON kick_chain) () = (Inr kick_fields, [], ())"
proof -
  have r: "raw kick_chain = JObj kick_fields"
    by (simp add: kick_chain_def kick_raw_def)
  note t = toJSON_reads_snapshot_only [of quiet_core kick_chain "()" kick_fields]
  have "fst (run quiet_core (DrumChain_toJSON kick_chain) ()) =
      Inr (map (\<lambda>k. (k, field_of kick_fields k)) Chain_keys @
           [(''choke_group'', field_of kick_fields ''choke_group''),
            (''out_of_key'', field_of kick_fields ''out_of_key''),
            (''auto_select_on_receive'', field_of kick_fields ''auto_select_on_receive'')])"
    using t r by blast
  moreover have "map (\<lambda>k. (k, field_of kick_fields k)) Chain_keys @
           [(''choke_group'', field_of kick_fields ''choke_group''),
            (''out_of_key'', field_of kick_fields ''out_of_key''),
            (''auto_select_on_receive'', field_of kick_fields ''auto_select_on_receive'')] = kick_fields"
    by (simp add: field_of_def Chain_keys_def kick_fields_def)
  moreover have "snd (run quiet_core (DrumChain_toJSON kick_chain) ()) = ([], ())"
    using t by blast
  ultimately show ?thesis
    using r by (simp add: prod_eq_iff)
qed

text \<open>
  Claim C10. Constructing a \<^verbatim>\<open>Chain\<close>, a \<^verbatim>\<open>DrumChain\<close> or a \<^verbatim>\<open>ChainMixerDevice\<close>
  performs no core operation: the constructor stores the instance reference, the raw
  snapshot and the path, the path being the empty string when the argument is omitted, and
  the \<^verbatim>\<open>id\<close> getter of the new object returns \<^verbatim>\<open>raw.id\<close> without any core call.
\<close>

theorem constructors_store_fields_only:
  "run h (Chain_new a r p) w = (Inr \<lparr>ableton = a, raw = r, path = default_path p\<rparr>, [], w) \<and>
   run h (DrumChain_new a r p) w = (Inr \<lparr>ableton = a, raw = r, path = default_path p\<rparr>, [], w) \<and>
   run h (ChainMixerDevice_new a r p) w =
     (Inr \<lparr>ableton = a, raw = r, path = default_path p\<rparr>, [], w) \<and>
   default_path None = [] \<and>
   default_path (Some s) = s \<and>
   run h (Chain_id \<lparr>ableton = a, raw = r, path = default_path p\<rparr>) w = (js_get r ''id'', [], w) \<and>
   run h (ChainMixerDevice_id \<lparr>ableton = a, raw = r, path = default_path p\<rparr>) w =
     (js_get r ''id'', [], w) \<and>
   js_get (JObj fs) ''id'' = Inr (field_of fs ''id'')"
  by (simp add: Chain_new_def DrumChain_new_def ChainMixerDevice_new_def default_path_def
      Chain_id_def ChainMixerDevice_id_def run_lift field_of_def)


section \<open>Properties of the client\<close>

lemma candidates_set:
  "set (filter (\<lambda>n. n \<notin> set used) [0..<Suc (length used)]) = {n. n \<le> length used \<and> n \<notin> set used}"
  by (auto simp del: upt_Suc)

lemma candidates_nonempty:
  "filter (\<lambda>n. n \<notin> set used) [0..<Suc (length used)] \<noteq> []"
proof
  assume "filter (\<lambda>n. n \<notin> set used) [0..<Suc (length used)] = []"
  then have "set (filter (\<lambda>n. n \<notin> set used) [0..<Suc (length used)]) = {}"
    by (simp only: set_empty)
  then have "{n. n \<le> length used \<and> n \<notin> set used} = {}"
    by (simp only: candidates_set)
  then have "{0..length used} \<subseteq> set used" by auto
  then have "card {0..length used} \<le> card (set used)"
    by (intro card_mono) auto
  moreover have "card (set used) \<le> length used" by (rule card_length)
  ultimately show False by simp
qed

lemma fresh_cid_head:
  obtains ns where
    "filter (\<lambda>n. n \<notin> set used) [0..<Suc (length used)] = fresh_cid used # ns"
proof -
  obtain n ns where eq: "filter (\<lambda>n. n \<notin> set used) [0..<Suc (length used)] = n # ns"
    using candidates_nonempty [of used]
    by (cases "filter (\<lambda>n. n \<notin> set used) [0..<Suc (length used)]") blast+
  have "fresh_cid used = n"
    unfolding fresh_cid_def eq by simp
  then show ?thesis using that eq by blast
qed

lemma fresh_cid_fresh: "fresh_cid used \<notin> set used"
proof -
  obtain ns where eq: "filter (\<lambda>n. n \<notin> set used) [0..<Suc (length used)] = fresh_cid used # ns"
    by (rule fresh_cid_head)
  have "fresh_cid used \<in> set (filter (\<lambda>n. n \<notin> set used) [0..<Suc (length used)])"
    unfolding eq by simp
  then show ?thesis unfolding candidates_set by simp
qed

lemma fresh_cid_least: "n \<notin> set used \<Longrightarrow> fresh_cid used \<le> n"
proof -
  assume n: "n \<notin> set used"
  obtain ns where eq: "filter (\<lambda>n. n \<notin> set used) [0..<Suc (length used)] = fresh_cid used # ns"
    by (rule fresh_cid_head)
  have "sorted (filter (\<lambda>n. n \<notin> set used) [0..<Suc (length used)])"
    by (rule sorted_wrt_filter) (rule sorted_upt)
  then have below: "\<forall>x \<in> set ns. fresh_cid used \<le> x"
    unfolding eq by simp
  have "fresh_cid used \<in> set (filter (\<lambda>n. n \<notin> set used) [0..<Suc (length used)])"
    unfolding eq by simp
  then have bound: "fresh_cid used \<le> length used"
    unfolding candidates_set by simp
  show ?thesis
  proof (cases "n \<le> length used")
    case True
    then have "n \<in> set (filter (\<lambda>n. n \<notin> set used) [0..<Suc (length used)])"
      unfolding candidates_set using n by simp
    then have "n = fresh_cid used \<or> n \<in> set ns" unfolding eq by simp
    then show ?thesis using below by auto
  next
    case False
    then show ?thesis using bound by simp
  qed
qed

lemma inv_init: "client_inv init_client"
  by (simp add: client_inv_def init_client_def)

lemma inv_submit: "client_inv st \<Longrightarrow> client_inv (snd (submit a op args st))"
  using fresh_cid_fresh [of "map fst (pending st)"]
  by (auto simp: client_inv_def submit_def Let_def less_Suc_eq)

lemma inv_subs_update: "client_inv (st\<lparr>subs := f\<rparr>) = client_inv st"
  by (simp add: client_inv_def)

lemma inv_settle: "client_inv st \<Longrightarrow> client_inv (settle c r st)"
proof -
  assume inv: "client_inv st"
  show ?thesis
  proof (cases "map_of (pending st) c")
    case None
    then show ?thesis using inv by (simp add: settle_def)
  next
    case (Some h)
    then have mem: "(c, h) \<in> set (pending st)" by (rule map_of_SomeD)
    have other: "\<forall>e \<in> set (pending st). fst e \<noteq> c \<longrightarrow> snd e \<noteq> h"
    proof (intro ballI impI)
      fix e assume e: "e \<in> set (pending st)" "fst e \<noteq> c"
      have inj: "inj_on snd (set (pending st))"
        using inv by (simp add: client_inv_def distinct_map)
      show "snd e \<noteq> h"
      proof
        assume "snd e = h"
        then have "snd e = snd (c, h)" by simp
        then have "e = (c, h)" by (rule inj_onD [OF inj _ e(1) mem])
        then show False using e(2) by simp
      qed
    qed
    show ?thesis
      using inv mem other
      by (auto simp: client_inv_def settle_def Some distinct_map_filter)
  qed
qed

lemma inv_step: "client_inv st \<Longrightarrow> client_inv (step e st)"
proof (cases e)
  case (Submit a op args)
  assume "client_inv st" then show ?thesis by (simp add: Submit inv_submit)
next
  case (Receive f)
  assume "client_inv st" then show ?thesis
    by (simp add: Receive on_receive_def resolve_def fail_def dispatch_def inv_settle client_inv_def [of "st\<lparr>invoked := _\<rparr>"] client_inv_def [of "st\<lparr>dropped := _\<rparr>"]
        split: inbound.split sum.split) (simp add: client_inv_def)
next
  case (TimerFired h)
  assume "client_inv st" then show ?thesis
    by (simp add: TimerFired on_timeout_def fail_def inv_settle split: option.split)
next
  case (AddListenerEv a cb)
  assume "client_inv st" then show ?thesis
    by (simp add: AddListenerEv core_addListener_def Let_def inv_submit inv_subs_update)
next
  case (RemoveListenerEv a cb)
  assume "client_inv st" then show ?thesis
    by (simp add: RemoveListenerEv core_removeListener_def Let_def inv_submit inv_subs_update)
qed

lemma inv_run_events: "client_inv st \<Longrightarrow> client_inv (run_events es st)"
  by (induction es arbitrary: st) (simp_all add: inv_step)

lemma pending_lookup: "client_inv st \<Longrightarrow> (c, h) \<in> set (pending st) \<Longrightarrow> map_of (pending st) c = Some h"
  by (simp add: client_inv_def)

lemma pending_handle_unique:
  "client_inv st \<Longrightarrow> (c, h) \<in> set (pending st) \<Longrightarrow> e \<in> set (pending st) \<Longrightarrow> snd e = h \<Longrightarrow> e = (c, h)"
proof -
  assume inv: "client_inv st" and mem: "(c, h) \<in> set (pending st)"
    and e: "e \<in> set (pending st)" and eq: "snd e = h"
  have inj: "inj_on snd (set (pending st))"
    using inv by (simp add: client_inv_def distinct_map)
  from eq have "snd e = snd (c, h)" by simp
  then show "e = (c, h)" by (rule inj_onD [OF inj _ e mem])
qed

lemma pending_not_settled:
  "client_inv st \<Longrightarrow> (c, h) \<in> set (pending st) \<Longrightarrow> completions h st = []"
  by (force simp: client_inv_def completions_def filter_empty_conv)

lemma settle_same:
  assumes "client_inv st" "(c, h) \<in> set (pending st)"
  shows "completions h (settle c r st) = completions h st @ [r]"
    and "c \<notin> fst ` set (pending (settle c r st))"
    and "h \<notin> snd ` set (pending (settle c r st))"
    and "next_reply (settle c r st) = next_reply st"
proof -
  have look: "map_of (pending st) c = Some h" using assms by (rule pending_lookup)
  show "completions h (settle c r st) = completions h st @ [r]"
    by (simp add: settle_def look completions_def)
  show "c \<notin> fst ` set (pending (settle c r st))"
    by (auto simp: settle_def look)
  show "h \<notin> snd ` set (pending (settle c r st))"
  proof
    assume "h \<in> snd ` set (pending (settle c r st))"
    then obtain e where e: "e \<in> set (pending st)" "fst e \<noteq> c" "snd e = h"
      by (auto simp: settle_def look)
    then have "e = (c, h)" using assms pending_handle_unique by blast
    then show False using e(2) by simp
  qed
  show "next_reply (settle c r st) = next_reply st"
    by (simp add: settle_def look)
qed

lemma settle_other:
  assumes "client_inv st" "(c, h) \<in> set (pending st)" "c' \<noteq> c"
  shows "(c, h) \<in> set (pending (settle c' r st))"
    and "completions h (settle c' r st) = completions h st"
proof -
  show "(c, h) \<in> set (pending (settle c' r st))"
    using assms by (simp add: settle_def split: option.split)
  show "completions h (settle c' r st) = completions h st"
  proof (cases "map_of (pending st) c'")
    case None
    then show ?thesis by (simp add: settle_def)
  next
    case (Some h')
    then have mem': "(c', h') \<in> set (pending st)" by (rule map_of_SomeD)
    have "h' \<noteq> h"
    proof
      assume "h' = h"
      then have "(c', h') = (c, h)"
        using assms(1,2) mem' pending_handle_unique [of st c h "(c', h')"] by simp
      then show False using assms(3) by simp
    qed
    then show ?thesis by (simp add: settle_def Some completions_def)
  qed
qed

lemma on_timeout_same:
  assumes "client_inv st" "(c, h) \<in> set (pending st)"
  shows "on_timeout h st = settle c (Inl Timeout) st"
proof -
  obtain e where f: "find (\<lambda>e. snd e = h) (pending st) = Some e"
    using assms(2) by (cases "find (\<lambda>e. snd e = h) (pending st)") (auto simp: find_None_iff)
  then have "e \<in> set (pending st)" "snd e = h"
    by (auto simp: find_Some_iff)
  then have "e = (c, h)" using assms pending_handle_unique by blast
  then show ?thesis by (simp add: on_timeout_def f fail_def)
qed

lemma on_timeout_other:
  assumes "client_inv st" "(c, h) \<in> set (pending st)" "h' \<noteq> h"
  shows "(c, h) \<in> set (pending (on_timeout h' st))"
    and "completions h (on_timeout h' st) = completions h st"
proof -
  have "(c, h) \<in> set (pending (on_timeout h' st)) \<and> completions h (on_timeout h' st) = completions h st"
  proof (cases "find (\<lambda>e. snd e = h') (pending st)")
    case None
    then show ?thesis using assms by (simp add: on_timeout_def)
  next
    case (Some e)
    then have e: "e \<in> set (pending st)" "snd e = h'"
      by (auto simp: find_Some_iff)
    have "fst e \<noteq> c"
    proof
      assume "fst e = c"
      then have "map_of (pending st) c = Some h'"
        using e assms(1) by (cases e) (simp add: client_inv_def)
      then show False using pending_lookup [OF assms(1,2)] assms(3) by simp
    qed
    then show ?thesis
      using settle_other [OF assms(1,2), of "fst e"]
      by (simp add: on_timeout_def Some fail_def)
  qed
  then show "(c, h) \<in> set (pending (on_timeout h' st))"
    and "completions h (on_timeout h' st) = completions h st" by simp_all
qed

lemma submit_keeps:
  "(c, h) \<in> set (pending st) \<Longrightarrow> (c, h) \<in> set (pending (snd (submit a op args st)))"
  "completions h (snd (submit a op args st)) = completions h st"
  by (simp_all add: submit_def Let_def completions_def)

lemma on_receive_reply: "on_receive (Reply c r) st = settle c (outcome_of r) st"
  by (simp add: on_receive_def resolve_def fail_def outcome_of_def split: sum.split)

lemma step_no_attempt:
  assumes "client_inv st" "(c, h) \<in> set (pending st)" "attempt c h e = None"
  shows "(c, h) \<in> set (pending (step e st)) \<and> completions h (step e st) = completions h st"
proof (cases e)
  case (Submit a op args)
  then show ?thesis using assms(2) by (simp add: submit_keeps)
next
  case (Receive f)
  show ?thesis
  proof (cases f)
    case (Reply c' r)
    then have "c' \<noteq> c" using assms(3) Receive by (simp split: if_splits)
    then show ?thesis
      using settle_other [OF assms(1,2)]
      by (simp add: Receive Reply on_receive_def resolve_def fail_def split: sum.split)
  next
    case (Event a payload)
    then show ?thesis using assms(2)
      by (simp add: Receive on_receive_def dispatch_def completions_def)
  next
    case Malformed
    then show ?thesis using assms(2)
      by (simp add: Receive on_receive_def completions_def)
  qed
next
  case (TimerFired h')
  then have "h' \<noteq> h" using assms(3) by (simp split: if_splits)
  then show ?thesis using on_timeout_other [OF assms(1,2)] by (simp add: TimerFired)
next
  case (AddListenerEv a cb)
  have "(c, h) \<in> set (pending (st\<lparr>subs := f\<rparr>))" for f using assms(2) by simp
  then show ?thesis using assms(2)
    by (simp add: AddListenerEv core_addListener_def Let_def submit_keeps)
      (simp add: completions_def)
next
  case (RemoveListenerEv a cb)
  have "(c, h) \<in> set (pending (st\<lparr>subs := f\<rparr>))" for f using assms(2) by simp
  then show ?thesis using assms(2)
    by (simp add: RemoveListenerEv core_removeListener_def Let_def submit_keeps)
      (simp add: completions_def)
qed

lemma step_attempt:
  assumes "client_inv st" "(c, h) \<in> set (pending st)" "attempt c h e = Some r"
  shows "step e st = settle c r st"
proof (cases e)
  case (Receive f)
  then show ?thesis using assms(3)
    by (cases f) (auto simp: on_receive_reply split: if_splits)
next
  case (TimerFired h')
  then have "h' = h" "r = Inl Timeout" using assms(3) by (simp_all split: if_splits)
  then show ?thesis using on_timeout_same [OF assms(1,2)] by (simp add: TimerFired)
qed (use assms(3) in simp_all)

lemma retired_submit:
  "retired h st \<Longrightarrow> retired h (snd (submit a op args st)) \<and>
     completions h (snd (submit a op args st)) = completions h st"
  by (auto simp: retired_def submit_def Let_def completions_def)

lemma retired_settle:
  "retired h st \<Longrightarrow> retired h (settle c r st) \<and> completions h (settle c r st) = completions h st"
proof (cases "map_of (pending st) c")
  case None
  assume "retired h st" then show ?thesis by (simp add: settle_def None)
next
  case (Some h')
  assume ret: "retired h st"
  have "(c, h') \<in> set (pending st)" using Some by (rule map_of_SomeD)
  then have "h' \<noteq> h" using ret by (force simp: retired_def)
  then show ?thesis using ret
    by (auto simp: retired_def settle_def Some completions_def)
qed

lemma retired_subs: "retired h (st\<lparr>subs := f\<rparr>) = retired h st"
  "completions h (st\<lparr>subs := f\<rparr>) = completions h st"
  by (simp_all add: retired_def completions_def)

lemma retired_step:
  "retired h st \<Longrightarrow> retired h (step e st) \<and> completions h (step e st) = completions h st"
proof (cases e)
  case (Submit a op args)
  assume "retired h st" then show ?thesis by (simp add: Submit retired_submit)
next
  case (Receive f)
  assume ret: "retired h st"
  show ?thesis
  proof (cases f)
    case (Reply c r)
    then show ?thesis using retired_settle [OF ret]
      by (simp add: Receive on_receive_def resolve_def fail_def split: sum.split)
  next
    case (Event a payload)
    then show ?thesis using ret
      by (simp add: Receive on_receive_def dispatch_def retired_def completions_def)
  next
    case Malformed
    then show ?thesis using ret
      by (simp add: Receive on_receive_def retired_def completions_def)
  qed
next
  case (TimerFired h')
  assume "retired h st" then show ?thesis
    by (simp add: TimerFired on_timeout_def fail_def retired_settle split: option.split)
next
  case (AddListenerEv a cb)
  assume "retired h st" then show ?thesis
    by (simp add: AddListenerEv core_addListener_def Let_def retired_submit retired_subs)
next
  case (RemoveListenerEv a cb)
  assume "retired h st" then show ?thesis
    by (simp add: RemoveListenerEv core_removeListener_def Let_def retired_submit retired_subs)
qed

lemma retired_run_events:
  "retired h st \<Longrightarrow> completions h (run_events es st) = completions h st"
  by (induction es arbitrary: st) (simp_all add: retired_step)

lemma completions_run_events:
  "client_inv st \<Longrightarrow> (c, h) \<in> set (pending st) \<Longrightarrow>
   completions h (run_events es st) = (case first_attempt c h es of None \<Rightarrow> [] | Some r \<Rightarrow> [r])"
proof (induction es arbitrary: st)
  case Nil
  then show ?case by (simp add: pending_not_settled)
next
  case (Cons e es)
  show ?case
  proof (cases "attempt c h e")
    case None
    have "client_inv (step e st)" using Cons.prems(1) by (rule inv_step)
    moreover have "(c, h) \<in> set (pending (step e st))"
      using step_no_attempt [OF Cons.prems None] by simp
    ultimately show ?thesis using Cons.IH by (simp add: None)
  next
    case (Some r)
    have eq: "step e st = settle c r st" using Cons.prems Some by (rule step_attempt)
    have "h < next_reply st" using Cons.prems by (force simp: client_inv_def)
    then have "retired h (settle c r st)"
      using settle_same(3,4) [OF Cons.prems, of r] by (simp add: retired_def)
    then have "completions h (run_events es (settle c r st)) = completions h (settle c r st)"
      by (rule retired_run_events)
    then show ?thesis
      using settle_same(1) [OF Cons.prems, of r] pending_not_settled [OF Cons.prems]
      by (simp add: Some eq)
  qed
qed

lemma still_pending_run_events:
  "client_inv st \<Longrightarrow> (c, h) \<in> set (pending st) \<Longrightarrow> first_attempt c h es = None \<Longrightarrow>
   (c, h) \<in> set (pending (run_events es st))"
proof (induction es arbitrary: st)
  case Nil
  then show ?case by simp
next
  case (Cons e es)
  from Cons.prems(3) have none: "attempt c h e = None" "first_attempt c h es = None"
    by (simp_all split: option.splits)
  have "client_inv (step e st)" using Cons.prems(1) by (rule inv_step)
  moreover have "(c, h) \<in> set (pending (step e st))"
    using step_no_attempt [OF Cons.prems(1,2) none(1)] by simp
  ultimately show ?case using Cons.IH none(2) by simp
qed

lemma run_events_append: "run_events (xs @ ys) st = run_events ys (run_events xs st)"
  by (induction xs arbitrary: st) simp_all

lemma inv_reachable: "client_inv (run_events history init_client)"
  by (simp add: inv_run_events inv_init)

lemma submit_facts:
  "fst (submit a op args st) = next_reply st"
  "(fresh_cid (map fst (pending st)), next_reply st) \<in> set (pending (snd (submit a op args st)))"
  "outbox (snd (submit a op args st)) = outbox st @
     [\<lparr>correlation_id = fresh_cid (map fst (pending st)), address = a, operation = op, arguments = args\<rparr>]"
  by (simp_all add: submit_def Let_def)

lemma sequential_submit:
  assumes inv: "client_inv st"
    and host: "host_serve \<lparr>correlation_id = fresh_cid (map fst (pending st)), address = a,
                 operation = op, arguments = args\<rparr> store
               = (Reply (fresh_cid (map fst (pending st))) r, store')"
  shows "fst (sequential (submit a op args) (st, store)) = [outcome_of r]"
    and "snd (snd (sequential (submit a op args) (st, store))) = store'"
    and "client_inv (fst (snd (sequential (submit a op args) (st, store))))"
proof -
  let ?c = "fresh_cid (map fst (pending st))"
  let ?h = "next_reply st"
  obtain st1 where sub: "submit a op args st = (?h, st1)"
    by (simp add: submit_def Let_def)
  have st1: "snd (submit a op args st) = st1" by (simp add: sub)
  have inv1: "client_inv st1" using inv_submit [OF inv, of a op args] by (simp add: st1)
  have mem1: "(?c, ?h) \<in> set (pending st1)"
    using submit_facts(2) [of st a op args] by (simp add: st1)
  have sent: "sent_since st st1 =
      [\<lparr>correlation_id = ?c, address = a, operation = op, arguments = args\<rparr>]"
    using submit_facts(3) [of a op args st] by (simp add: sent_since_def st1)
  have served: "serve_frames (sent_since st st1) (st1, store) = (settle ?c (outcome_of r) st1, store')"
    by (simp add: sent host on_receive_reply)
  have seq: "sequential (submit a op args) (st, store) =
      (completions ?h (settle ?c (outcome_of r) st1), settle ?c (outcome_of r) st1, store')"
    by (simp add: sequential_def sub served)
  have "completions ?h st1 = []" using inv1 mem1 by (rule pending_not_settled)
  then show "fst (sequential (submit a op args) (st, store)) = [outcome_of r]"
    using settle_same(1) [OF inv1 mem1] by (simp add: seq)
  show "snd (snd (sequential (submit a op args) (st, store))) = store'"
    by (simp add: seq)
  show "client_inv (fst (snd (sequential (submit a op args) (st, store))))"
    using inv1 by (simp add: seq inv_settle)
qed





text \<open>
  Claim C1. Take any history of the client and the requests pending after it; their
  correlation ids are pairwise distinct. Whatever happens next, with replies in any order,
  duplicated, late or bogus, and timers firing at any point, the PendingReply of each
  such request is completed at most once, namely by the first reply that bears its own
  correlation id or by its own timer, whichever comes first, and with the result of that
  reply; every later attempt is a no-op: a reply whose correlation id has no pending entry,
  and a timer whose request is no longer pending, leave the client as it is. So each
  request that gets a reply or a timeout is completed exactly once, and no request
  receives the result of another.
\<close>

theorem replies_complete_own_request_once:
  fixes history :: "('ad, 'v, 'cb) event list"
  shows "(c, h) \<in> set (pending (run_events history init_client)) \<Longrightarrow>
   completions h (run_events es (run_events history init_client)) =
     (case first_attempt c h es of None \<Rightarrow> [] | Some r \<Rightarrow> [r]) \<and>
   (\<forall>e \<in> set (pending (run_events history init_client)). snd e \<noteq> h \<longrightarrow> fst e \<noteq> c) \<and>
   (\<forall>s :: ('ad, 'v, 'cb) client.
      c \<notin> fst ` set (pending s) \<longrightarrow> step (Receive (Reply c reply)) s = s) \<and>
   (\<forall>s :: ('ad, 'v, 'cb) client.
      h \<notin> snd ` set (pending s) \<longrightarrow> step (TimerFired h) s = s)"
proof -
  assume mem: "(c, h) \<in> set (pending (run_events history init_client))"
  have inv: "client_inv (run_events history init_client)" by (rule inv_reachable)
  have distinct_ids:
    "\<forall>e \<in> set (pending (run_events history init_client)). snd e \<noteq> h \<longrightarrow> fst e \<noteq> c"
  proof (intro ballI impI)
    fix e assume e: "e \<in> set (pending (run_events history init_client))" "snd e \<noteq> h"
    show "fst e \<noteq> c"
    proof
      assume "fst e = c"
      then have "map_of (pending (run_events history init_client)) c = Some (snd e)"
        using e(1) inv by (cases e) (simp add: client_inv_def)
      then show False using pending_lookup [OF inv mem] e(2) by simp
    qed
  qed
  have late_reply: "step (Receive (Reply c reply)) s = s"
    if "c \<notin> fst ` set (pending s)" for s :: "('ad, 'v, 'cb) client"
  proof -
    have "map_of (pending s) c = None" using that by (simp add: map_of_eq_None_iff)
    then show ?thesis by (simp add: on_receive_reply settle_def)
  qed
  have late_timer: "step (TimerFired h) s = s"
    if "h \<notin> snd ` set (pending s)" for s :: "('ad, 'v, 'cb) client"
  proof -
    have "find (\<lambda>e. snd e = h) (pending s) = None"
      using that by (force simp: find_None_iff)
    then show ?thesis by (simp add: on_timeout_def)
  qed
  show ?thesis
    using completions_run_events [OF inv mem] distinct_ids late_reply late_timer by simp
qed

theorem replies_complete_own_request_once_witness:
  "(0, 0) \<in> set (pending (run_events two_requests init_client)) \<and>
   (1, 1) \<in> set (pending (run_events two_requests init_client)) \<and>
   completions 0 (run_events shuffled_replies (run_events two_requests init_client)) = [Inr 0.75] \<and>
   completions 1 (run_events shuffled_replies (run_events two_requests init_client)) = [Inr 0.5] \<and>
   step (Receive (Reply 1 (Inr 0.25))) empty_client = empty_client \<and>
   step (TimerFired 0) empty_client = empty_client"
proof -
  have p: "pending (run_events two_requests init_client) = [(0, 0), (1, 1)]"
    by (simp add: two_requests_def init_client_def submit_def fresh_cid_def)
  have m0: "(0, 0) \<in> set (pending (run_events two_requests init_client))" by (simp add: p)
  have m1: "(1, 1) \<in> set (pending (run_events two_requests init_client))" by (simp add: p)
  have idle: "pending empty_client = []" by (simp add: empty_client_def init_client_def)
  note t0 = replies_complete_own_request_once [OF m0, of shuffled_replies "Inr 0.25"]
  note t1 = replies_complete_own_request_once [OF m1, of shuffled_replies "Inr 0.25"]
  have c0: "completions 0 (run_events shuffled_replies (run_events two_requests init_client)) =
      [Inr 0.75]"
    using t0 by (simp add: shuffled_replies_def outcome_of_def)
  have c1: "completions 1 (run_events shuffled_replies (run_events two_requests init_client)) =
      [Inr 0.5]"
    using t1 by (simp add: shuffled_replies_def outcome_of_def)
  from t1 have "1 \<notin> fst ` set (pending empty_client) \<longrightarrow>
      step (Receive (Reply 1 (Inr 0.25))) empty_client = empty_client"
    by blast
  then have late: "step (Receive (Reply 1 (Inr 0.25))) empty_client = empty_client"
    by (simp add: idle)
  from t0 have "0 \<notin> snd ` set (pending empty_client) \<longrightarrow>
      step (TimerFired 0) empty_client = empty_client"
    by blast
  then have timer: "step (TimerFired 0) empty_client = empty_client"
    by (simp add: idle)
  show ?thesis using m0 m1 c0 c1 late timer by simp
qed

text \<open>
  Claim C2. For every address \<open>a\<close> and value \<open>v\<close>, after any history of the client and
  with any content of the host, a sequential \<^verbatim>\<open>setProp(a, v)\<close> followed by a sequential
  \<^verbatim>\<open>getProp(a)\<close>, against the host that echoes stored state, resolves the \<^verbatim>\<open>getProp\<close> to
  exactly \<open>v\<close> (and completes it once).
\<close>

theorem set_then_get_round_trip:
  fixes history :: "('ad, 'v, 'cb) event list"
  shows "fst (sequential (core_getProp a)
           (snd (sequential (core_setProp a v) (run_events history init_client, store)))) =
         [Inr v]"
proof -
  let ?st = "run_events history init_client"
  let ?x1 = "sequential (core_setProp a v) (?st, store)"
  have inv: "client_inv ?st" by (rule inv_reachable)
  have set_host: "host_serve \<lparr>correlation_id = fresh_cid (map fst (pending ?st)), address = a,
        operation = OpSet, arguments = [v]\<rparr> store
      = (Reply (fresh_cid (map fst (pending ?st))) (Inr v), store(a \<mapsto> v))"
    by (simp add: host_serve_def)
  have store1: "snd (snd ?x1) = store(a \<mapsto> v)"
    unfolding core_setProp_def using inv set_host by (rule sequential_submit(2))
  have inv1: "client_inv (fst (snd ?x1))"
    unfolding core_setProp_def using inv set_host by (rule sequential_submit(3))
  have get_host: "host_serve \<lparr>correlation_id = fresh_cid (map fst (pending (fst (snd ?x1)))), address = a,
        operation = OpGet, arguments = []\<rparr> (store(a \<mapsto> v))
      = (Reply (fresh_cid (map fst (pending (fst (snd ?x1))))) (Inr v), store(a \<mapsto> v))"
    by (simp add: host_serve_def)
  have "fst (sequential (core_getProp a) (fst (snd ?x1), store(a \<mapsto> v))) = [outcome_of (Inr v)]"
    unfolding core_getProp_def using inv1 get_host by (rule sequential_submit(1))
  moreover have "snd ?x1 = (fst (snd ?x1), store(a \<mapsto> v))"
    using store1 by (metis prod.collapse)
  ultimately show ?thesis by (simp add: outcome_of_def)
qed

text \<open>
  Claim C3. Submit a request after any history of the client. If no reply bearing its
  correlation id arrives before its timer fires, then at that point its PendingReply fails
  with \<open>Timeout\<close> (its one and only completion), its pending entry is removed, and its
  correlation id is free again: the next request submitted gets an id no greater, and gets
  exactly that id when every smaller id is in use.
\<close>

theorem timeout_fails_and_frees_id:
  assumes "st = run_events history init_client"
    and "c = fresh_cid (map fst (pending st))"
    and "first_attempt c (fst (submit a op args st)) evs = None"
    and "st' = run_events (evs @ [TimerFired (fst (submit a op args st))]) (snd (submit a op args st))"
  shows "completions (fst (submit a op args st)) st' = [Inl Timeout] \<and>
         c \<notin> fst ` set (pending st') \<and>
         fst (submit a op args st) \<notin> snd ` set (pending st') \<and>
         fresh_cid (map fst (pending st')) \<le> c \<and>
         ((\<forall>k<c. k \<in> fst ` set (pending st')) \<longrightarrow>
            map correlation_id (sent_since st' (snd (submit a2 op2 args2 st'))) = [c])"
proof -
  let ?h = "fst (submit a op args st)"
  let ?st1 = "snd (submit a op args st)"
  let ?mid = "run_events evs ?st1"
  have inv: "client_inv st" unfolding assms(1) by (rule inv_reachable)
  have inv1: "client_inv ?st1" using inv by (rule inv_submit)
  have mem1: "(c, ?h) \<in> set (pending ?st1)"
    unfolding assms(2) by (simp add: submit_facts)
  have invm: "client_inv ?mid" using inv1 by (rule inv_run_events)
  have memm: "(c, ?h) \<in> set (pending ?mid)"
    using inv1 mem1 assms(3) by (rule still_pending_run_events)
  have st': "st' = settle c (Inl Timeout) ?mid"
    unfolding assms(4) run_events_append using on_timeout_same [OF invm memm] by simp
  have "completions ?h ?mid = []" using invm memm by (rule pending_not_settled)
  then have 1: "completions ?h st' = [Inl Timeout]"
    unfolding st' using settle_same(1) [OF invm memm] by simp
  have 2: "c \<notin> fst ` set (pending st')"
    unfolding st' using invm memm by (rule settle_same(2))
  have 3: "?h \<notin> snd ` set (pending st')"
    unfolding st' using invm memm by (rule settle_same(3))
  have 4: "fresh_cid (map fst (pending st')) \<le> c"
    using 2 by (intro fresh_cid_least) simp
  have 5: "map correlation_id (sent_since st' (snd (submit a2 op2 args2 st'))) = [c]"
    if all: "\<forall>k<c. k \<in> fst ` set (pending st')"
  proof -
    have "fresh_cid (map fst (pending st')) \<notin> set (map fst (pending st'))"
      by (rule fresh_cid_fresh)
    then have "\<not> fresh_cid (map fst (pending st')) < c" using all by auto
    then have "fresh_cid (map fst (pending st')) = c" using 4 by simp
    then show ?thesis by (simp add: sent_since_def submit_facts)
  qed
  show ?thesis using 1 2 3 4 5 by blast
qed

theorem timeout_fails_and_frees_id_witness:
  "first_attempt (fresh_cid (map fst (pending empty_client)))
     (fst (submit ''track 0 volume'' OpGet [] empty_client)) silence = None \<and>
   completions 0
     (run_events (silence @ [TimerFired 0]) (snd (submit ''track 0 volume'' OpGet [] empty_client))) =
     [Inl Timeout] \<and>
   pending
     (run_events (silence @ [TimerFired 0]) (snd (submit ''track 0 volume'' OpGet [] empty_client))) =
     [] \<and>
   map correlation_id
     (sent_since
        (run_events (silence @ [TimerFired 0])
           (snd (submit ''track 0 volume'' OpGet [] empty_client)))
        (snd (submit ''track 1 volume'' OpGet []
           (run_events (silence @ [TimerFired 0])
              (snd (submit ''track 0 volume'' OpGet [] empty_client)))))) = [0]"
proof -
  have e: "empty_client = run_events [] init_client" by (simp add: empty_client_def)
  have h: "fst (submit ''track 0 volume'' OpGet [] empty_client) = 0"
    by (simp add: submit_def Let_def empty_client_def init_client_def)
  have c: "fresh_cid (map fst (pending empty_client)) = 0"
    by (simp add: empty_client_def init_client_def fresh_cid_def)
  have q: "first_attempt (fresh_cid (map fst (pending empty_client)))
     (fst (submit ''track 0 volume'' OpGet [] empty_client)) silence = None"
    by (simp add: h c silence_def)
  have p: "pending
     (run_events (silence @ [TimerFired 0]) (snd (submit ''track 0 volume'' OpGet [] empty_client))) =
     []"
    by (simp add: silence_def empty_client_def init_client_def submit_def Let_def fresh_cid_def
        on_receive_def on_timeout_def fail_def resolve_def settle_def dispatch_def)
  note t = timeout_fails_and_frees_id [OF e refl q refl, of "''track 1 volume''" OpGet "[]"]
  show ?thesis
    using t q by (simp add: h c p)
qed


end
